theory Spec2Isabelle
  imports Main
begin

section \<open>Error values\<close>

text \<open>
  \<^verbatim>\<open>baseError.New(code, msg)\<close> builds a \<^verbatim>\<open>*baseError.Error\<close>; the four errors of the
  package are such values.
\<close>

datatype base_error = BaseError string string

definition ErrorBlock :: base_error where
  "ErrorBlock = BaseError ''4300'' ''forbidden''"

definition ErrorWarning :: base_error where
  "ErrorWarning = BaseError ''4301'' ''too many requests''"

definition ErrorWhiteListExists :: base_error where
  "ErrorWhiteListExists = BaseError ''4303'' ''whiteList exists''"

definition ErrorBlackListExists :: base_error where
  "ErrorBlackListExists = BaseError ''4304'' ''blackList exists''"

text \<open>
  A Go \<^verbatim>\<open>error\<close> returned by the limiter is either a \<^verbatim>\<open>*baseError.Error\<close> (the pointer
  held by the interface value; \<open>None\<close> is the nil pointer) or the error of a Store call,
  handed on as the redis client produced it. A nil \<^verbatim>\<open>error\<close> is \<open>None :: error option\<close>.
\<close>

datatype error = Base "base_error option" | StoreError string

section \<open>The Store\<close>

text \<open>
  The redis client (\<^verbatim>\<open>github.com/go-tron/redis\<close>) is an external collaborator. Its state is
  a table of window counters (count and time-to-live), a table of sets, the log of the
  calls made so far and a schedule of outcomes: the head of \<open>faults\<close> decides whether
  the next call fails (\<open>Some e\<close>) or succeeds (\<open>None\<close>); an empty schedule means success.
  A set is kept as the list of its members without repetition. No time passes between two
  calls: the state describes one counting window.
\<close>

datatype store_call =
    CallSMembers string
  | CallFrequencyLimit string int int
  | CallExpire string int
  | CallDel string
  | CallSRem string string
  | CallSAdd string string

record Store =
  counters :: "string \<Rightarrow> (int \<times> int) option"
  sets :: "string \<Rightarrow> string list"
  faults :: "string option list"
  calls :: "store_call list"

definition fault :: "Store \<Rightarrow> string option" where
  "fault s = (case faults s of [] \<Rightarrow> None | f # fs \<Rightarrow> f)"

definition called :: "store_call \<Rightarrow> Store \<Rightarrow> Store" where
  "called c s = s\<lparr>faults := tl (faults s), calls := calls s @ [c]\<rparr>"

text \<open>The next \<open>n\<close> Store calls succeed.\<close>

definition store_ok :: "nat \<Rightarrow> Store \<Rightarrow> bool" where
  "store_ok n s = list_all (\<lambda>f. f = None) (take n (faults s))"

text \<open>
  Modelled from the spec: the Counter Store Contract's \<^verbatim>\<open>IncrementWindow(key, threshold,
  windowDuration) -> count\<close> (\<^verbatim>\<open>Store.FrequencyLimit\<close> in the source, whose body is in the
  redis package): atomic; creates the key with the window's time-to-live on first use,
  increments and returns the current count on later calls within the window.
\<close>

definition FrequencyLimit :: "string \<Rightarrow> int \<Rightarrow> int \<Rightarrow> Store \<Rightarrow> (error + int) \<times> Store" where
  "FrequencyLimit key limit duration s =
     (let s1 = called (CallFrequencyLimit key limit duration) s in
      case fault s of
        Some e \<Rightarrow> (Inl (StoreError e), s1)
      | None \<Rightarrow>
          (case counters s1 key of
             None \<Rightarrow> (Inr 1, s1\<lparr>counters := (counters s1)(key \<mapsto> (1, duration))\<rparr>)
           | Some (n, ttl) \<Rightarrow> (Inr (n + 1), s1\<lparr>counters := (counters s1)(key \<mapsto> (n + 1, ttl))\<rparr>)))"

text \<open>Modelled from the spec: \<^verbatim>\<open>SetExpiry(key, duration)\<close>; true when the key exists.\<close>

definition Expire :: "string \<Rightarrow> int \<Rightarrow> Store \<Rightarrow> (error + bool) \<times> Store" where
  "Expire key duration s =
     (let s1 = called (CallExpire key duration) s in
      case fault s of
        Some e \<Rightarrow> (Inl (StoreError e), s1)
      | None \<Rightarrow>
          (case counters s1 key of
             None \<Rightarrow> (Inr False, s1)
           | Some (n, ttl) \<Rightarrow> (Inr True, s1\<lparr>counters := (counters s1)(key \<mapsto> (n, duration))\<rparr>)))"

text \<open>Modelled from the spec: \<^verbatim>\<open>Delete(key)\<close>; the number of keys deleted.\<close>

definition Del :: "string \<Rightarrow> Store \<Rightarrow> (error + int) \<times> Store" where
  "Del key s =
     (let s1 = called (CallDel key) s in
      case fault s of
        Some e \<Rightarrow> (Inl (StoreError e), s1)
      | None \<Rightarrow>
          (case counters s1 key of
             None \<Rightarrow> (Inr 0, s1)
           | Some v \<Rightarrow> (Inr 1, s1\<lparr>counters := (counters s1)(key := None)\<rparr>)))"

text \<open>Modelled from the spec: \<^verbatim>\<open>SetAdd(key, member)\<close>; the number of members added.\<close>

definition SAdd :: "string \<Rightarrow> string \<Rightarrow> Store \<Rightarrow> (error + int) \<times> Store" where
  "SAdd key member s =
     (let s1 = called (CallSAdd key member) s in
      case fault s of
        Some e \<Rightarrow> (Inl (StoreError e), s1)
      | None \<Rightarrow>
          (if member \<in> set (sets s1 key) then (Inr 0, s1)
           else (Inr 1, s1\<lparr>sets := (sets s1)(key := sets s1 key @ [member])\<rparr>)))"

text \<open>Modelled from the spec: \<^verbatim>\<open>SetRemove(key, member)\<close>; the number of members removed.\<close>

definition SRem :: "string \<Rightarrow> string \<Rightarrow> Store \<Rightarrow> (error + int) \<times> Store" where
  "SRem key member s =
     (let s1 = called (CallSRem key member) s in
      case fault s of
        Some e \<Rightarrow> (Inl (StoreError e), s1)
      | None \<Rightarrow>
          (if member \<in> set (sets s1 key)
           then (Inr 1, s1\<lparr>sets := (sets s1)(key := removeAll member (sets s1 key))\<rparr>)
           else (Inr 0, s1)))"

text \<open>Modelled from the spec: \<^verbatim>\<open>SetMembers(key) -> list of member\<close>.\<close>

definition SMembers :: "string \<Rightarrow> Store \<Rightarrow> (error + string list) \<times> Store" where
  "SMembers key s =
     (let s1 = called (CallSMembers key) s in
      case fault s of
        Some e \<Rightarrow> (Inl (StoreError e), s1)
      | None \<Rightarrow> (Inr (sets s1 key), s1))"

section \<open>Library functions the limiter calls\<close>

text \<open>\<^verbatim>\<open>funk.Contains\<close> and \<^verbatim>\<open>funk.ContainsString\<close>: a scan for an equal element.\<close>

fun Contains :: "'a list \<Rightarrow> 'a \<Rightarrow> bool" where
  "Contains [] e = False"
| "Contains (x # xs) e = (if x = e then True else Contains xs e)"

fun ContainsString :: "string list \<Rightarrow> string \<Rightarrow> bool" where
  "ContainsString [] e = False"
| "ContainsString (x # xs) e = (if x = e then True else ContainsString xs e)"

text \<open>\<^verbatim>\<open>funk.IndexOfString\<close>: the index of the first equal element, or \<open>-1\<close>.\<close>

fun IndexOfString :: "string list \<Rightarrow> string \<Rightarrow> int" where
  "IndexOfString [] e = - 1"
| "IndexOfString (x # xs) e =
     (if x = e then 0
      else (let i = IndexOfString xs e in if i = - 1 then - 1 else i + 1))"

text \<open>
  \<^verbatim>\<open>strings.Split(s, sep)\<close> for a one-character separator: the pieces between all the
  separators; a string without separator is the only piece.
\<close>

fun Split :: "string \<Rightarrow> char \<Rightarrow> string list" where
  "Split [] sep = [[]]"
| "Split (x # xs) sep =
     (if x = sep then [] # Split xs sep
      else (case Split xs sep of
              [] \<Rightarrow> [[x]]
            | w # ws \<Rightarrow> (x # w) # ws))"

section \<open>The limiter\<close>

text \<open>
  Durations are \<^verbatim>\<open>time.Duration\<close> values (nanoseconds). \<open>Pub\<close> tells whether the publish
  callback is set; the \<^verbatim>\<open>Store\<close> pointer of the configuration is the \<open>store\<close> of the
  state below. The thresholds and the count are Go \<^verbatim>\<open>int\<close>s that the limiter only
  compares, so they are integers here. In the methods, \<open>ident\<close> is the source's \<^verbatim>\<open>id\<close>
  and \<open>cnt\<close> its \<^verbatim>\<open>times\<close>, two names that HOL has taken.
\<close>

record Config =
  Name :: string
  Duration :: int
  WarningTimes :: int
  BlockTimes :: int
  BlockDuration :: int
  WarningError :: "base_error option"
  BlockError :: "base_error option"
  WhiteList :: "string list"
  BlackList :: "string list"
  Pub :: bool

record RateLimiter =
  config :: Config
  whiteList :: "string list"
  blackList :: "string list"
  whiteListKey :: string
  blackListKey :: string

text \<open>
  What a method of the limiter reads and writes: the limiter itself, the Store, and the
  messages handed to the publish callback so far (channel and body).
\<close>

record state =
  limiter :: RateLimiter
  store :: Store
  published :: "(string \<times> string) list"

definition publish :: "string \<Rightarrow> string \<Rightarrow> state \<Rightarrow> state" where
  "publish channel message st = st\<lparr>published := published st @ [(channel, message)]\<rparr>"

definition set_whiteList :: "string list \<Rightarrow> state \<Rightarrow> state" where
  "set_whiteList xs st = st\<lparr>limiter := (limiter st)\<lparr>whiteList := xs\<rparr>\<rparr>"

definition set_blackList :: "string list \<Rightarrow> state \<Rightarrow> state" where
  "set_blackList xs st = st\<lparr>limiter := (limiter st)\<lparr>blackList := xs\<rparr>\<rparr>"

text \<open>\<^verbatim>\<open>append(xs[:idx], xs[idx+1:]...)\<close>\<close>

definition cut :: "int \<Rightarrow> string list \<Rightarrow> string list" where
  "cut idx xs = take (nat idx) xs @ drop (nat (idx + 1)) xs"

definition CheckReset :: "string \<Rightarrow> state \<Rightarrow> error option \<times> state" where
  "CheckReset ident st =
     (case Del (Name (config (limiter st)) @ '':'' @ ident) (store st) of
        (Inl err, s) \<Rightarrow> (Some err, st\<lparr>store := s\<rparr>)
      | (Inr n, s) \<Rightarrow> (None, st\<lparr>store := s\<rparr>))"

definition RemoveWhiteList :: "string \<Rightarrow> bool \<Rightarrow> state \<Rightarrow> error option \<times> state" where
  "RemoveWhiteList ident pub st =
     (case SRem (whiteListKey (limiter st)) ident (store st) of
        (Inl err, s) \<Rightarrow> (Some err, st\<lparr>store := s\<rparr>)
      | (Inr n, s) \<Rightarrow>
          (let st1 = st\<lparr>store := s\<rparr>;
               idx = IndexOfString (whiteList (limiter st1)) ident;
               st2 = (if idx \<noteq> - 1 then set_whiteList (cut idx (whiteList (limiter st1))) st1
                      else st1);
               st3 = (if pub \<and> Pub (config (limiter st2))
                      then publish (Name (config (limiter st2))) (''removeWhiteList-'' @ ident) st2
                      else st2)
           in (None, st3)))"

definition RemoveBlackList :: "string \<Rightarrow> bool \<Rightarrow> state \<Rightarrow> error option \<times> state" where
  "RemoveBlackList ident pub st =
     (case SRem (blackListKey (limiter st)) ident (store st) of
        (Inl err, s) \<Rightarrow> (Some err, st\<lparr>store := s\<rparr>)
      | (Inr n, s) \<Rightarrow>
          (let st1 = st\<lparr>store := s\<rparr>;
               idx = IndexOfString (blackList (limiter st1)) ident;
               st2 = (if idx \<noteq> - 1 then set_blackList (cut idx (blackList (limiter st1))) st1
                      else st1);
               st3 = (if pub \<and> Pub (config (limiter st2))
                      then publish (Name (config (limiter st2))) (''removeBlackList-'' @ ident) st2
                      else st2)
           in CheckReset ident st3))"

definition AddWhiteList :: "string \<Rightarrow> bool \<Rightarrow> state \<Rightarrow> error option \<times> state" where
  "AddWhiteList ident pub st =
     (case SAdd (whiteListKey (limiter st)) ident (store st) of
        (Inl err, s) \<Rightarrow> (Some err, st\<lparr>store := s\<rparr>)
      | (Inr n, s) \<Rightarrow>
          (let st1 = st\<lparr>store := s\<rparr>;
               idx = IndexOfString (whiteList (limiter st1)) ident
           in if idx \<noteq> - 1 then (Some (Base (Some ErrorWhiteListExists)), st1)
              else (let st2 = set_whiteList (whiteList (limiter st1) @ [ident]) st1;
                        st3 = (if pub \<and> Pub (config (limiter st2))
                               then publish (Name (config (limiter st2))) (''addWhiteList-'' @ ident) st2
                               else st2)
                    in (None, st3))))"

definition AddBlackList :: "string \<Rightarrow> bool \<Rightarrow> state \<Rightarrow> error option \<times> state" where
  "AddBlackList ident pub st =
     (case SAdd (blackListKey (limiter st)) ident (store st) of
        (Inl err, s) \<Rightarrow> (Some err, st\<lparr>store := s\<rparr>)
      | (Inr n, s) \<Rightarrow>
          (let st1 = st\<lparr>store := s\<rparr>;
               idx = IndexOfString (blackList (limiter st1)) ident
           in if idx \<noteq> - 1 then (Some (Base (Some ErrorBlackListExists)), st1)
              else (let st2 = set_blackList (blackList (limiter st1) @ [ident]) st1;
                        st3 = (if pub \<and> Pub (config (limiter st2))
                               then publish (Name (config (limiter st2))) (''addBlackList-'' @ ident) st2
                               else st2)
                    in (None, st3))))"

text \<open>
  \<^verbatim>\<open>Check\<close> returns the count and the error. The results of \<^verbatim>\<open>AddBlackList\<close> and of
  \<^verbatim>\<open>Store.Expire\<close> in the block branch are dropped, as in the source.
\<close>

definition Check :: "string \<Rightarrow> state \<Rightarrow> (int \<times> error option) \<times> state" where
  "Check ident st =
     (let c = config (limiter st) in
      if Contains (whiteList (limiter st)) ident then ((0, None), st)
      else if Contains (blackList (limiter st)) ident then ((0, Some (Base (BlockError c))), st)
      else
        (case FrequencyLimit (Name c @ '':'' @ ident) 0 (Duration c) (store st) of
           (Inl err, s) \<Rightarrow> ((0, Some err), st\<lparr>store := s\<rparr>)
         | (Inr cnt, s) \<Rightarrow>
             (let st1 = st\<lparr>store := s\<rparr> in
              if BlockTimes c > 0 \<and> cnt \<ge> BlockTimes c then
                (let st2 = (if BlockDuration c = 0 then snd (AddBlackList ident True st1)
                            else st1\<lparr>store :=
                                   snd (Expire (Name c @ '':'' @ ident) (BlockDuration c) (store st1))\<rparr>)
                 in ((cnt, Some (Base (BlockError c))), st2))
              else if WarningTimes c > 0 \<and> cnt \<ge> WarningTimes c then
                ((cnt, Some (Base (WarningError c))), st1)
              else ((cnt, None), st1))))"

text \<open>The message handler: only a message of exactly two pieces is dispatched.\<close>

definition Sub :: "string \<Rightarrow> state \<Rightarrow> error option \<times> state" where
  "Sub message st =
     (let str = Split message CHR ''-'' in
      if length str \<noteq> 2 then (None, st)
      else if str ! 0 = ''removeWhiteList'' then RemoveWhiteList (str ! 1) False st
      else if str ! 0 = ''removeBlackList'' then RemoveBlackList (str ! 1) False st
      else if str ! 0 = ''addWhiteList'' then AddWhiteList (str ! 1) False st
      else if str ! 0 = ''addBlackList'' then AddBlackList (str ! 1) False st
      else (None, st))"

text \<open>
  \<^verbatim>\<open>New\<close> panics on a missing configuration, name or window, and on a negative block
  duration; otherwise it fills in the default errors and seeds the two lists from the
  configuration and then from the Store. The two copy loops and the two merge loops of the
  source are \<open>foldl\<close>s over the list they range over.
\<close>

datatype panic = PanicConfig | PanicName | PanicDuration | PanicBlockDuration

definition New :: "Config option \<Rightarrow> Store \<Rightarrow> (string \<times> string) list \<Rightarrow> panic + state" where
  "New conf s pubs =
     (case conf of
        None \<Rightarrow> Inl PanicConfig
      | Some c0 \<Rightarrow>
          if Name c0 = [] then Inl PanicName
          else if Duration c0 = 0 then Inl PanicDuration
          else if BlockDuration c0 < 0 then Inl PanicBlockDuration
          else
            (let c1 = (if BlockError c0 = None then c0\<lparr>BlockError := Some ErrorBlock\<rparr> else c0);
                 c = (if WarningError c1 = None then c1\<lparr>WarningError := Some ErrorWarning\<rparr> else c1);
                 wkey = Name c @ ''-white'';
                 bkey = Name c @ ''-black'';
                 wl0 = foldl (\<lambda>acc val. acc @ [val]) [] (WhiteList c);
                 bl0 = foldl (\<lambda>acc val. acc @ [val]) [] (BlackList c);
                 (r1, s1) = SMembers wkey s;
                 wl = (case r1 of
                         Inl err \<Rightarrow> wl0
                       | Inr members \<Rightarrow>
                           foldl (\<lambda>acc val. if \<not> ContainsString acc val then acc @ [val] else acc)
                             wl0 members);
                 (r2, s2) = SMembers bkey s1;
                 bl = (case r2 of
                         Inl err \<Rightarrow> bl0
                       | Inr members \<Rightarrow>
                           foldl (\<lambda>acc val. if \<not> ContainsString acc val then acc @ [val] else acc)
                             bl0 members)
             in Inr \<lparr>limiter = \<lparr>config = c, whiteList = wl, blackList = bl,
                                 whiteListKey = wkey, blackListKey = bkey\<rparr>,
                     store = s2, published = pubs\<rparr>))"

text \<open>
  \<^verbatim>\<open>GetWhiteList\<close> and \<^verbatim>\<open>GetBlackList\<close>: the argument is \<open>None\<close> for a nil interface
  and a string otherwise (the source panics on any other value); a nil result is the
  empty list.
\<close>

definition GetWhiteList :: "string option \<Rightarrow> state \<Rightarrow> string list" where
  "GetWhiteList ident st =
     (case ident of
        Some i \<Rightarrow> (if ContainsString (whiteList (limiter st)) i then [i] else [])
      | None \<Rightarrow> whiteList (limiter st))"

definition GetBlackList :: "string option \<Rightarrow> state \<Rightarrow> string list" where
  "GetBlackList ident st =
     (case ident of
        Some i \<Rightarrow> (if ContainsString (blackList (limiter st)) i then [i] else [])
      | None \<Rightarrow> blackList (limiter st))"

text \<open>\<open>n\<close> successive calls of \<^verbatim>\<open>Check\<close> for one identity, with their results in order.\<close>

fun Checks :: "string \<Rightarrow> nat \<Rightarrow> state \<Rightarrow> (int \<times> error option) list \<times> state" where
  "Checks ident 0 st = ([], st)"
| "Checks ident (Suc n) st =
     (let (r, st1) = Check ident st;
          (rs, st2) = Checks ident n st1
      in (r # rs, st2))"

text \<open>The state after calls of \<^verbatim>\<open>Check\<close> for the identities of a list, one after the other.\<close>

fun after_checks :: "string list \<Rightarrow> state \<Rightarrow> state" where
  "after_checks [] st = st"
| "after_checks (j # js) st = after_checks js (snd (Check j st))"

section \<open>A limiter to run\<close>

text \<open>
  A configuration with warning threshold 3, block threshold 5 and a window of ten seconds,
  and an empty Store that never fails; \<open>timed\<close> blocks for thirty seconds instead of
  for ever, \<open>listed\<close> has an identity in both lists and one in the blacklist only,
  \<open>escalated\<close> has an identity blacklisted with its counter at the block threshold,
  \<open>strict\<close> blocks at the first request, \<open>failing\<close> gives the Store a schedule
  of outcomes.
\<close>

definition example_config :: Config where
  "example_config =
     \<lparr>Name = ''api'', Duration = 10000000000, WarningTimes = 3, BlockTimes = 5,
      BlockDuration = 0, WarningError = None, BlockError = None,
      WhiteList = [], BlackList = [], Pub = True\<rparr>"

definition empty_store :: Store where
  "empty_store = \<lparr>counters = (\<lambda>k. None), sets = (\<lambda>k. []), faults = [], calls = []\<rparr>"

definition example_limiter :: RateLimiter where
  "example_limiter =
     \<lparr>config = example_config\<lparr>WarningError := Some ErrorWarning, BlockError := Some ErrorBlock\<rparr>,
      whiteList = [], blackList = [],
      whiteListKey = ''api-white'', blackListKey = ''api-black''\<rparr>"

definition example_state :: state where
  "example_state = \<lparr>limiter = example_limiter, store = empty_store, published = []\<rparr>"

definition timed :: "state \<Rightarrow> state" where
  "timed st =
     st\<lparr>limiter := (limiter st)\<lparr>config := (config (limiter st))\<lparr>BlockDuration := 30000000000\<rparr>\<rparr>\<rparr>"

definition listed :: "state \<Rightarrow> state" where
  "listed st =
     st\<lparr>limiter := (limiter st)\<lparr>whiteList := [''vip''], blackList := [''vip'', ''bad'']\<rparr>\<rparr>"

definition escalated :: "state \<Rightarrow> state" where
  "escalated st =
     st\<lparr>limiter := (limiter st)\<lparr>blackList := [''u'']\<rparr>,
        store := (store st)\<lparr>counters := (counters (store st))(''api:u'' \<mapsto> (5, 10000000000)),
                             sets := (sets (store st))(''api-black'' := [''u''])\<rparr>\<rparr>"

definition strict :: "state \<Rightarrow> state" where
  "strict st =
     st\<lparr>limiter := (limiter st)\<lparr>config := (config (limiter st))\<lparr>BlockTimes := 1\<rparr>\<rparr>\<rparr>"

definition failing :: "string option list \<Rightarrow> state \<Rightarrow> state" where
  "failing fs st = st\<lparr>store := (store st)\<lparr>faults := fs\<rparr>\<rparr>"

section \<open>Facts about the library functions and the override paths\<close>

lemma Contains_set: "Contains xs e = (e \<in> set xs)"
  by (induction xs) auto

lemma ContainsString_set: "ContainsString xs e = (e \<in> set xs)"
  by (induction xs) auto

text \<open>
  C2. An identity in the local whitelist gets \<open>(0, none)\<close> and the whole state, the Store
  and its call log included, is left as it was, also when the identity is in the local
  blacklist too; an identity in the local blacklist and not in the whitelist gets
  \<open>(0, Blocked)\<close>, again with the state (and so every counter) untouched.
\<close>

theorem Check_override:
  "(ident \<in> set (whiteList (limiter st)) \<longrightarrow> Check ident st = ((0, None), st)) \<and>
   (ident \<in> set (blackList (limiter st)) \<and> ident \<notin> set (whiteList (limiter st)) \<longrightarrow>
      Check ident st = ((0, Some (Base (BlockError (config (limiter st))))), st))"
  by (simp add: Check_def Contains_set Let_def)

text \<open>On a limiter with \<open>vip\<close> in both lists and \<open>bad\<close> in the blacklist only.\<close>

theorem Check_override_run:
  "Check ''vip'' (listed example_state) = ((0, None), listed example_state) \<and>
   Check ''bad'' (listed example_state) = ((0, Some (Base (Some ErrorBlock))), listed example_state)"
proof -
  have "''vip'' \<in> set (whiteList (limiter (listed example_state)))"
    and "''bad'' \<in> set (blackList (limiter (listed example_state))) \<and>
         ''bad'' \<notin> set (whiteList (limiter (listed example_state)))"
    and "BlockError (config (limiter (listed example_state))) = Some ErrorBlock"
    by (simp_all add: listed_def example_state_def example_limiter_def)
  with Check_override [of "''vip''" "listed example_state"]
    Check_override [of "''bad''" "listed example_state"]
  show ?thesis by simp
qed

section \<open>Facts about the Store\<close>

lemma store_ok_fault: "store_ok (Suc n) s \<Longrightarrow> fault s = None"
  by (cases "faults s") (simp_all add: store_ok_def fault_def)

lemma store_ok_called: "store_ok (Suc n) s \<Longrightarrow> store_ok n (called c s)"
  by (cases "faults s") (simp_all add: store_ok_def called_def)

lemma store_ok_counters [simp]: "store_ok n (s\<lparr>counters := f\<rparr>) = store_ok n s"
  by (simp add: store_ok_def)

lemma store_ok_sets [simp]: "store_ok n (s\<lparr>sets := f\<rparr>) = store_ok n s"
  by (simp add: store_ok_def)

lemma fault_counters [simp]: "fault (s\<lparr>counters := f\<rparr>) = fault s"
  by (simp add: fault_def)

lemma fault_sets [simp]: "fault (s\<lparr>sets := f\<rparr>) = fault s"
  by (simp add: fault_def)

lemma called_fields [simp]:
  "counters (called c s) = counters s"
  "sets (called c s) = sets s"
  "calls (called c s) = calls s @ [c]"
  "faults (called c s) = tl (faults s)"
  by (simp_all add: called_def)

lemma FrequencyLimit_fail:
  "fault s = Some e \<Longrightarrow>
   FrequencyLimit key l d s = (Inl (StoreError e), called (CallFrequencyLimit key l d) s)"
  by (simp add: FrequencyLimit_def)

lemma FrequencyLimit_ok:
  "fault s = None \<Longrightarrow>
   FrequencyLimit key l d s =
     (Inr (case counters s key of None \<Rightarrow> 1 | Some (n, t) \<Rightarrow> n + 1),
      (called (CallFrequencyLimit key l d) s)
        \<lparr>counters := (counters s)(key \<mapsto>
           (case counters s key of None \<Rightarrow> (1, d) | Some (n, t) \<Rightarrow> (n + 1, t)))\<rparr>)"
  by (simp add: FrequencyLimit_def Let_def split: option.splits)

lemma FrequencyLimit_cases:
  "(\<exists>e. fault s = Some e \<and>
        FrequencyLimit key l d s = (Inl (StoreError e), called (CallFrequencyLimit key l d) s)) \<or>
   (\<exists>cnt s'. fault s = None \<and> FrequencyLimit key l d s = (Inr cnt, s') \<and>
        calls s' = calls s @ [CallFrequencyLimit key l d] \<and> faults s' = tl (faults s) \<and>
        sets s' = sets s)"
  by (cases "fault s") (auto simp: FrequencyLimit_fail FrequencyLimit_ok)

lemma Expire_calls: "calls (snd (Expire key d s)) = calls s @ [CallExpire key d]"
  by (simp add: Expire_def Let_def split: option.splits)

lemma Expire_faults: "faults (snd (Expire key d s)) = tl (faults s)"
  by (simp add: Expire_def Let_def split: option.splits)

lemma Expire_sets: "sets (snd (Expire key d s)) = sets s"
  by (simp add: Expire_def Let_def split: option.splits)

lemma SAdd_fail:
  "fault s = Some e \<Longrightarrow> SAdd key m s = (Inl (StoreError e), called (CallSAdd key m) s)"
  by (simp add: SAdd_def)

lemma SAdd_ok:
  "fault s = None \<Longrightarrow>
   SAdd key m s =
     (Inr (if m \<in> set (sets s key) then 0 else 1),
      (called (CallSAdd key m) s)
        \<lparr>sets := (sets s)(key := (if m \<in> set (sets s key) then sets s key else sets s key @ [m]))\<rparr>)"
  by (simp add: SAdd_def Let_def)

lemma SRem_fail:
  "fault s = Some e \<Longrightarrow> SRem key m s = (Inl (StoreError e), called (CallSRem key m) s)"
  by (simp add: SRem_def)

lemma SRem_ok:
  "fault s = None \<Longrightarrow>
   SRem key m s =
     (Inr (if m \<in> set (sets s key) then 1 else 0),
      (called (CallSRem key m) s)\<lparr>sets := (sets s)(key := removeAll m (sets s key))\<rparr>)"
  by (simp add: SRem_def Let_def)

lemma Del_fail:
  "fault s = Some e \<Longrightarrow> Del key s = (Inl (StoreError e), called (CallDel key) s)"
  by (simp add: Del_def)

lemma Del_ok:
  "fault s = None \<Longrightarrow>
   Del key s =
     (Inr (case counters s key of None \<Rightarrow> 0 | Some v \<Rightarrow> 1),
      (called (CallDel key) s)\<lparr>counters := (counters s)(key := None)\<rparr>)"
  by (cases "counters s key") (simp_all add: Del_def Let_def called_def fun_upd_idem)


section \<open>Lists\<close>

lemma IndexOfString_ge: "- 1 \<le> IndexOfString xs e"
  by (induction xs) (simp_all add: Let_def)

lemma IndexOfString_absent: "(IndexOfString xs e = - 1) = (e \<notin> set xs)"
proof (induction xs)
  case Nil
  show ?case by simp
next
  case (Cons x xs)
  have "- 1 \<le> IndexOfString xs e" by (rule IndexOfString_ge)
  with Cons show ?case by (auto simp: Let_def)
qed

lemma cut_Cons: "0 \<le> i \<Longrightarrow> cut (i + 1) (x # xs) = x # cut i xs"
proof -
  assume nonneg: "0 \<le> i"
  then have n1: "nat (i + 1) = Suc (nat i)" by arith
  from nonneg have n2: "nat (i + 1 + 1) = Suc (Suc (nat i))" by arith
  show ?thesis unfolding cut_def n1 n2 by simp
qed

lemma cut_IndexOfString: "e \<in> set xs \<Longrightarrow> cut (IndexOfString xs e) xs = remove1 e xs"
proof (induction xs)
  case Nil
  then show ?case by simp
next
  case (Cons x xs)
  show ?case
  proof (cases "x = e")
    case True
    then show ?thesis by (simp add: cut_def)
  next
    case False
    with Cons.prems have mem: "e \<in> set xs" by simp
    then have ne: "IndexOfString xs e \<noteq> - 1" by (simp add: IndexOfString_absent)
    moreover have "- 1 \<le> IndexOfString xs e" by (rule IndexOfString_ge)
    ultimately have nonneg: "0 \<le> IndexOfString xs e" by arith
    have "IndexOfString (x # xs) e = IndexOfString xs e + 1"
      using False ne by (simp add: Let_def)
    then have "cut (IndexOfString (x # xs) e) (x # xs) = x # cut (IndexOfString xs e) xs"
      using cut_Cons [OF nonneg] by simp
    with Cons.IH [OF mem] False show ?thesis by simp
  qed
qed

section \<open>The counter path of Check\<close>

lemma Check_counted:
  assumes "ident \<notin> set (whiteList (limiter st))" and "ident \<notin> set (blackList (limiter st))"
    and "FrequencyLimit (Name (config (limiter st)) @ '':'' @ ident) 0
           (Duration (config (limiter st))) (store st) = (Inr cnt, s)"
  shows "Check ident st =
    (if 0 < BlockTimes (config (limiter st)) \<and> BlockTimes (config (limiter st)) \<le> cnt
     then ((cnt, Some (Base (BlockError (config (limiter st))))),
           if BlockDuration (config (limiter st)) = 0
           then snd (AddBlackList ident True (st\<lparr>store := s\<rparr>))
           else st\<lparr>store := snd (Expire (Name (config (limiter st)) @ '':'' @ ident)
                                  (BlockDuration (config (limiter st))) s)\<rparr>)
     else if 0 < WarningTimes (config (limiter st)) \<and> WarningTimes (config (limiter st)) \<le> cnt
     then ((cnt, Some (Base (WarningError (config (limiter st))))), st\<lparr>store := s\<rparr>)
     else ((cnt, None), st\<lparr>store := s\<rparr>))"
  using assms by (simp add: Check_def Contains_set Let_def)

lemma Check_failed:
  assumes "ident \<notin> set (whiteList (limiter st))" and "ident \<notin> set (blackList (limiter st))"
    and "FrequencyLimit (Name (config (limiter st)) @ '':'' @ ident) 0
           (Duration (config (limiter st))) (store st) = (Inl err, s)"
  shows "Check ident st = ((0, Some err), st\<lparr>store := s\<rparr>)"
  using assms by (simp add: Check_def Contains_set Let_def)

lemma Check_below:
  assumes nw: "ident \<notin> set (whiteList (limiter st))"
    and nb: "ident \<notin> set (blackList (limiter st))"
    and ok: "store_ok (Suc n) (store st)"
    and cnt: "cnt = (case counters (store st) (Name (config (limiter st)) @ '':'' @ ident) of
                       None \<Rightarrow> 1 | Some (k, t) \<Rightarrow> k + 1)"
    and below: "\<not> (0 < BlockTimes (config (limiter st)) \<and> BlockTimes (config (limiter st)) \<le> cnt)"
  shows "fst (Check ident st) =
           (cnt, if 0 < WarningTimes (config (limiter st)) \<and> WarningTimes (config (limiter st)) \<le> cnt
                 then Some (Base (WarningError (config (limiter st)))) else None)"
    and "limiter (snd (Check ident st)) = limiter st"
    and "store_ok n (store (snd (Check ident st)))"
    and "\<exists>t. counters (store (snd (Check ident st))) (Name (config (limiter st)) @ '':'' @ ident)
            = Some (cnt, t)"
proof -
  let ?key = "Name (config (limiter st)) @ '':'' @ ident"
  let ?call = "CallFrequencyLimit ?key 0 (Duration (config (limiter st)))"
  let ?s = "(called ?call (store st))
        \<lparr>counters := (counters (store st))(?key \<mapsto>
           (case counters (store st) ?key of
              None \<Rightarrow> (1, Duration (config (limiter st))) | Some (k, t) \<Rightarrow> (k + 1, t)))\<rparr>"
  from ok have f: "fault (store st) = None" by (rule store_ok_fault)
  have fl: "FrequencyLimit ?key 0 (Duration (config (limiter st))) (store st) = (Inr cnt, ?s)"
    using FrequencyLimit_ok [OF f] cnt by simp
  note step = Check_counted [OF nw nb fl]
  show "fst (Check ident st) =
           (cnt, if 0 < WarningTimes (config (limiter st)) \<and> WarningTimes (config (limiter st)) \<le> cnt
                 then Some (Base (WarningError (config (limiter st)))) else None)"
    using step below by simp
  show "limiter (snd (Check ident st)) = limiter st"
    using step below by simp
  show "store_ok n (store (snd (Check ident st)))"
    using step below store_ok_called [OF ok] by simp
  show "\<exists>t. counters (store (snd (Check ident st))) ?key = Some (cnt, t)"
    using step below cnt by (auto split: option.splits)
qed

lemma Checks_Suc:
  "Checks ident (Suc n) st =
     (fst (Check ident st) # fst (Checks ident n (snd (Check ident st))),
      snd (Checks ident n (snd (Check ident st))))"
  by (simp add: split_def Let_def)


lemma Check_blocked:
  assumes "ident \<notin> set (whiteList (limiter st))" and "ident \<notin> set (blackList (limiter st))"
    and "FrequencyLimit (Name (config (limiter st)) @ '':'' @ ident) 0
           (Duration (config (limiter st))) (store st) = (Inr cnt, s)"
    and "0 < BlockTimes (config (limiter st))" and "BlockTimes (config (limiter st)) \<le> cnt"
  shows "fst (Check ident st) = (cnt, Some (Base (BlockError (config (limiter st)))))"
  using Check_counted [OF assms(1-3)] assms(4,5) by simp

text \<open>
  C1. With warning threshold 3 and block threshold 5, for an identity in neither local
  list whose counter does not exist yet and a Store whose next five calls succeed, five
  successive calls of \<^verbatim>\<open>Check\<close> return the counts 1 to 5, the first two without error,
  the third and fourth with the warning error and the fifth with the block error. In
  general, for any limiter and any count the Store returns, a block threshold that is set
  and reached gives the block error, whatever the warning threshold is.
\<close>

theorem Check_three_five:
  assumes nw: "ident \<notin> set (whiteList (limiter st))"
    and nb: "ident \<notin> set (blackList (limiter st))"
    and w3: "WarningTimes (config (limiter st)) = 3"
    and b5: "BlockTimes (config (limiter st)) = 5"
    and fresh: "counters (store st) (Name (config (limiter st)) @ '':'' @ ident) = None"
    and ok: "store_ok 5 (store st)"
  shows "fst (Checks ident 5 st) =
           [(1, None), (2, None),
            (3, Some (Base (WarningError (config (limiter st))))),
            (4, Some (Base (WarningError (config (limiter st))))),
            (5, Some (Base (BlockError (config (limiter st)))))] \<and>
         (\<forall>ident' st' cnt s.
            ident' \<notin> set (whiteList (limiter st')) \<and> ident' \<notin> set (blackList (limiter st')) \<and>
            FrequencyLimit (Name (config (limiter st')) @ '':'' @ ident') 0
              (Duration (config (limiter st'))) (store st') = (Inr cnt, s) \<and>
            0 < BlockTimes (config (limiter st')) \<and> BlockTimes (config (limiter st')) \<le> cnt \<longrightarrow>
            fst (Check ident' st') = (cnt, Some (Base (BlockError (config (limiter st'))))))"
proof
  let ?key = "Name (config (limiter st)) @ '':'' @ ident"
  define st1 where "st1 = snd (Check ident st)"
  define st2 where "st2 = snd (Check ident st1)"
  define st3 where "st3 = snd (Check ident st2)"
  define st4 where "st4 = snd (Check ident st3)"
  from ok have ok0: "store_ok (Suc 4) (store st)" by (simp add: eval_nat_numeral)
  have c1: "(1::int) = (case counters (store st) ?key of None \<Rightarrow> 1 | Some (k, t) \<Rightarrow> k + 1)"
    using fresh by simp
  have r1: "fst (Check ident st) = (1, None)"
    and l1: "limiter st1 = limiter st"
    and ok1: "store_ok 4 (store st1)"
    and k1: "\<exists>t. counters (store st1) ?key = Some (1, t)"
    using Check_below [OF nw nb ok0 c1] w3 b5 by (simp_all add: st1_def)
  from ok1 have ok1': "store_ok (Suc 3) (store st1)" by (simp add: eval_nat_numeral)
  have c2: "(2::int) = (case counters (store st1) (Name (config (limiter st1)) @ '':'' @ ident) of
                          None \<Rightarrow> 1 | Some (k, t) \<Rightarrow> k + 1)"
    using k1 l1 by auto
  have r2: "fst (Check ident st1) = (2, None)"
    and l2: "limiter st2 = limiter st"
    and ok2: "store_ok 3 (store st2)"
    and k2: "\<exists>t. counters (store st2) ?key = Some (2, t)"
    using Check_below [OF _ _ ok1' c2] nw nb w3 b5 l1 by (simp_all add: st2_def)
  from ok2 have ok2': "store_ok (Suc 2) (store st2)" by (simp add: eval_nat_numeral)
  have c3: "(3::int) = (case counters (store st2) (Name (config (limiter st2)) @ '':'' @ ident) of
                          None \<Rightarrow> 1 | Some (k, t) \<Rightarrow> k + 1)"
    using k2 l2 by auto
  have r3: "fst (Check ident st2) = (3, Some (Base (WarningError (config (limiter st)))))"
    and l3: "limiter st3 = limiter st"
    and ok3: "store_ok 2 (store st3)"
    and k3: "\<exists>t. counters (store st3) ?key = Some (3, t)"
    using Check_below [OF _ _ ok2' c3] nw nb w3 b5 l2 by (simp_all add: st3_def)
  from ok3 have ok3': "store_ok (Suc 1) (store st3)" by (simp add: eval_nat_numeral)
  have c4: "(4::int) = (case counters (store st3) (Name (config (limiter st3)) @ '':'' @ ident) of
                          None \<Rightarrow> 1 | Some (k, t) \<Rightarrow> k + 1)"
    using k3 l3 by auto
  have r4: "fst (Check ident st3) = (4, Some (Base (WarningError (config (limiter st)))))"
    and l4: "limiter st4 = limiter st"
    and ok4: "store_ok 1 (store st4)"
    and k4: "\<exists>t. counters (store st4) ?key = Some (4, t)"
    using Check_below [OF _ _ ok3' c4] nw nb w3 b5 l3 by (simp_all add: st4_def)
  from ok4 have f4: "fault (store st4) = None" by (simp add: store_ok_fault)
  obtain s5 where fl: "FrequencyLimit (Name (config (limiter st4)) @ '':'' @ ident) 0
                         (Duration (config (limiter st4))) (store st4) = (Inr 5, s5)"
    using FrequencyLimit_ok [OF f4] k4 l4 by auto
  have r5: "fst (Check ident st4) = (5, Some (Base (BlockError (config (limiter st)))))"
    using Check_blocked [OF _ _ fl] nw nb b5 l4 by simp
  show "fst (Checks ident 5 st) =
           [(1, None), (2, None),
            (3, Some (Base (WarningError (config (limiter st))))),
            (4, Some (Base (WarningError (config (limiter st))))),
            (5, Some (Base (BlockError (config (limiter st)))))]"
    using r1 r2 r3 r4 r5
    by (simp add: eval_nat_numeral Checks_Suc st1_def st2_def st3_def st4_def del: Checks.simps(2))
next
  show "\<forall>ident' st' cnt s.
            ident' \<notin> set (whiteList (limiter st')) \<and> ident' \<notin> set (blackList (limiter st')) \<and>
            FrequencyLimit (Name (config (limiter st')) @ '':'' @ ident') 0
              (Duration (config (limiter st'))) (store st') = (Inr cnt, s) \<and>
            0 < BlockTimes (config (limiter st')) \<and> BlockTimes (config (limiter st')) \<le> cnt \<longrightarrow>
            fst (Check ident' st') = (cnt, Some (Base (BlockError (config (limiter st')))))"
    using Check_blocked by blast
qed

text \<open>Five calls on the example limiter.\<close>

theorem Check_three_five_run:
  "fst (Checks ''u'' 5 example_state) =
     [(1, None), (2, None), (3, Some (Base (Some ErrorWarning))),
      (4, Some (Base (Some ErrorWarning))), (5, Some (Base (Some ErrorBlock)))]"
proof -
  have "''u'' \<notin> set (whiteList (limiter example_state))"
    and "''u'' \<notin> set (blackList (limiter example_state))"
    and "WarningTimes (config (limiter example_state)) = 3"
    and "BlockTimes (config (limiter example_state)) = 5"
    and "counters (store example_state) (Name (config (limiter example_state)) @ '':'' @ ''u'') = None"
    and "store_ok 5 (store example_state)"
    by (simp_all add: example_state_def example_limiter_def example_config_def empty_store_def
        store_ok_def)
  from Check_three_five [OF this] show ?thesis
    by (simp add: example_state_def example_limiter_def example_config_def)
qed


section \<open>List mutations\<close>

lemma AddBlackList_fail:
  "fault (store st) = Some e \<Longrightarrow>
   AddBlackList ident pub st =
     (Some (StoreError e), st\<lparr>store := called (CallSAdd (blackListKey (limiter st)) ident) (store st)\<rparr>)"
  by (simp add: AddBlackList_def SAdd_fail)

lemma AddBlackList_ok:
  "fault (store st) = None \<Longrightarrow>
   AddBlackList ident pub st =
     (if ident \<in> set (blackList (limiter st))
      then (Some (Base (Some ErrorBlackListExists)),
            st\<lparr>store := snd (SAdd (blackListKey (limiter st)) ident (store st))\<rparr>)
      else (None,
            st\<lparr>store := snd (SAdd (blackListKey (limiter st)) ident (store st)),
               limiter := (limiter st)\<lparr>blackList := blackList (limiter st) @ [ident]\<rparr>,
               published := published st @
                 (if pub \<and> Pub (config (limiter st))
                  then [(Name (config (limiter st)), ''addBlackList-'' @ ident)] else [])\<rparr>))"
  by (simp add: AddBlackList_def SAdd_ok Let_def IndexOfString_absent set_blackList_def publish_def)

lemma AddWhiteList_fail:
  "fault (store st) = Some e \<Longrightarrow>
   AddWhiteList ident pub st =
     (Some (StoreError e), st\<lparr>store := called (CallSAdd (whiteListKey (limiter st)) ident) (store st)\<rparr>)"
  by (simp add: AddWhiteList_def SAdd_fail)

lemma AddWhiteList_ok:
  "fault (store st) = None \<Longrightarrow>
   AddWhiteList ident pub st =
     (if ident \<in> set (whiteList (limiter st))
      then (Some (Base (Some ErrorWhiteListExists)),
            st\<lparr>store := snd (SAdd (whiteListKey (limiter st)) ident (store st))\<rparr>)
      else (None,
            st\<lparr>store := snd (SAdd (whiteListKey (limiter st)) ident (store st)),
               limiter := (limiter st)\<lparr>whiteList := whiteList (limiter st) @ [ident]\<rparr>,
               published := published st @
                 (if pub \<and> Pub (config (limiter st))
                  then [(Name (config (limiter st)), ''addWhiteList-'' @ ident)] else [])\<rparr>))"
  by (simp add: AddWhiteList_def SAdd_ok Let_def IndexOfString_absent set_whiteList_def publish_def)

lemma cut_or_keep:
  "(if IndexOfString xs e \<noteq> - 1 then cut (IndexOfString xs e) xs else xs) = remove1 e xs"
  by (simp add: IndexOfString_absent cut_IndexOfString remove1_idem)

lemma RemoveWhiteList_fail:
  "fault (store st) = Some e \<Longrightarrow>
   RemoveWhiteList ident pub st =
     (Some (StoreError e), st\<lparr>store := called (CallSRem (whiteListKey (limiter st)) ident) (store st)\<rparr>)"
  by (simp add: RemoveWhiteList_def SRem_fail)

lemma RemoveWhiteList_ok:
  "fault (store st) = None \<Longrightarrow>
   RemoveWhiteList ident pub st =
     (None,
      st\<lparr>store := snd (SRem (whiteListKey (limiter st)) ident (store st)),
         limiter := (limiter st)\<lparr>whiteList := remove1 ident (whiteList (limiter st))\<rparr>,
         published := published st @
           (if pub \<and> Pub (config (limiter st))
            then [(Name (config (limiter st)), ''removeWhiteList-'' @ ident)] else [])\<rparr>)"
  by (cases "ident \<in> set (whiteList (limiter st))")
    (simp_all add: RemoveWhiteList_def SRem_ok Let_def IndexOfString_absent cut_IndexOfString
      remove1_idem set_whiteList_def publish_def)

lemma RemoveBlackList_fail:
  "fault (store st) = Some e \<Longrightarrow>
   RemoveBlackList ident pub st =
     (Some (StoreError e), st\<lparr>store := called (CallSRem (blackListKey (limiter st)) ident) (store st)\<rparr>)"
  by (simp add: RemoveBlackList_def SRem_fail)

lemma RemoveBlackList_ok:
  "fault (store st) = None \<Longrightarrow>
   RemoveBlackList ident pub st =
     CheckReset ident
      (st\<lparr>store := snd (SRem (blackListKey (limiter st)) ident (store st)),
          limiter := (limiter st)\<lparr>blackList := remove1 ident (blackList (limiter st))\<rparr>,
          published := published st @
            (if pub \<and> Pub (config (limiter st))
             then [(Name (config (limiter st)), ''removeBlackList-'' @ ident)] else [])\<rparr>)"
  by (cases "ident \<in> set (blackList (limiter st))")
    (simp_all add: RemoveBlackList_def SRem_ok Let_def IndexOfString_absent cut_IndexOfString
      remove1_idem set_blackList_def publish_def)

lemma CheckReset_fail:
  "fault (store st) = Some e \<Longrightarrow>
   CheckReset ident st =
     (Some (StoreError e),
      st\<lparr>store := called (CallDel (Name (config (limiter st)) @ '':'' @ ident)) (store st)\<rparr>)"
  by (simp add: CheckReset_def Del_fail)

lemma CheckReset_ok:
  "fault (store st) = None \<Longrightarrow>
   CheckReset ident st =
     (None,
      st\<lparr>store := (called (CallDel (Name (config (limiter st)) @ '':'' @ ident)) (store st))
           \<lparr>counters := (counters (store st))(Name (config (limiter st)) @ '':'' @ ident := None)\<rparr>\<rparr>)"
  by (simp add: CheckReset_def Del_ok)


section \<open>What Check keeps\<close>

lemma AddBlackList_keeps:
  "whiteList (limiter (snd (AddBlackList ident pub st))) = whiteList (limiter st) \<and>
   config (limiter (snd (AddBlackList ident pub st))) = config (limiter st) \<and>
   set (blackList (limiter st)) \<subseteq> set (blackList (limiter (snd (AddBlackList ident pub st))))"
proof (cases "fault (store st)")
  case None
  then show ?thesis by (auto simp: AddBlackList_ok)
next
  case (Some e)
  then show ?thesis by (simp add: AddBlackList_fail)
qed

lemma Check_keeps:
  "whiteList (limiter (snd (Check j st))) = whiteList (limiter st) \<and>
   config (limiter (snd (Check j st))) = config (limiter st) \<and>
   set (blackList (limiter st)) \<subseteq> set (blackList (limiter (snd (Check j st))))"
proof (cases "j \<in> set (whiteList (limiter st)) \<or> j \<in> set (blackList (limiter st))")
  case True
  then show ?thesis by (auto simp: Check_def Contains_set Let_def)
next
  case False
  then have nw: "j \<notin> set (whiteList (limiter st))" and nb: "j \<notin> set (blackList (limiter st))"
    by simp_all
  obtain r s where fl: "FrequencyLimit (Name (config (limiter st)) @ '':'' @ j) 0
      (Duration (config (limiter st))) (store st) = (r, s)"
    by (cases "FrequencyLimit (Name (config (limiter st)) @ '':'' @ j) 0
      (Duration (config (limiter st))) (store st)")
  show ?thesis
  proof (cases r)
    case (Inl err)
    with fl Check_failed [OF nw nb] show ?thesis by simp
  next
    case (Inr cnt)
    with fl have "FrequencyLimit (Name (config (limiter st)) @ '':'' @ j) 0
      (Duration (config (limiter st))) (store st) = (Inr cnt, s)" by simp
    note step = Check_counted [OF nw nb this]
    have "whiteList (limiter (snd (AddBlackList j True (st\<lparr>store := s\<rparr>)))) = whiteList (limiter st)"
      and "config (limiter (snd (AddBlackList j True (st\<lparr>store := s\<rparr>)))) = config (limiter st)"
      and "set (blackList (limiter st)) \<subseteq>
           set (blackList (limiter (snd (AddBlackList j True (st\<lparr>store := s\<rparr>)))))"
      using AddBlackList_keeps [of j True "st\<lparr>store := s\<rparr>"] by simp_all
    with step show ?thesis by simp
  qed
qed

lemma after_checks_keeps:
  "whiteList (limiter (after_checks js st)) = whiteList (limiter st) \<and>
   config (limiter (after_checks js st)) = config (limiter st) \<and>
   set (blackList (limiter st)) \<subseteq> set (blackList (limiter (after_checks js st)))"
proof (induction js arbitrary: st)
  case Nil
  show ?case by simp
next
  case (Cons j js)
  from Cons.IH [of "snd (Check j st)"] Check_keeps [of j st] show ?case by auto
qed

text \<open>
  C3. With block duration 0, when \<^verbatim>\<open>Check\<close> gets from the Store a count at or above the
  block threshold (a threshold that is set), it returns that count with the block error
  and leaves the state that \<^verbatim>\<open>AddBlackList\<close> with publish = true leaves. When the Store's
  set-add succeeds, that call returns no error, the identity is appended to the local
  blacklist and is a member of the Store's blacklist set, the event is handed to the
  publisher if there is one, and after any further calls of \<^verbatim>\<open>Check\<close>, for any
  identities, \<^verbatim>\<open>Check\<close> for this identity returns \<open>(0, Blocked)\<close> and leaves the whole
  state, the Store included, as it is.
\<close>

theorem Check_escalates:
  assumes nw: "ident \<notin> set (whiteList (limiter st))"
    and nb: "ident \<notin> set (blackList (limiter st))"
    and forever: "BlockDuration (config (limiter st)) = 0"
    and fl: "FrequencyLimit (Name (config (limiter st)) @ '':'' @ ident) 0
               (Duration (config (limiter st))) (store st) = (Inr cnt, s)"
    and bt: "0 < BlockTimes (config (limiter st))"
    and ge: "BlockTimes (config (limiter st)) \<le> cnt"
    and ok: "fault s = None"
  shows "Check ident st =
           ((cnt, Some (Base (BlockError (config (limiter st))))),
            snd (AddBlackList ident True (st\<lparr>store := s\<rparr>))) \<and>
         fst (AddBlackList ident True (st\<lparr>store := s\<rparr>)) = None \<and>
         blackList (limiter (snd (Check ident st))) = blackList (limiter st) @ [ident] \<and>
         ident \<in> set (sets (store (snd (Check ident st))) (blackListKey (limiter st))) \<and>
         published (snd (Check ident st)) =
           published st @ (if Pub (config (limiter st))
                           then [(Name (config (limiter st)), ''addBlackList-'' @ ident)] else []) \<and>
         (\<forall>js. Check ident (after_checks js (snd (Check ident st))) =
                 ((0, Some (Base (BlockError (config (limiter st))))),
                  after_checks js (snd (Check ident st))))"
proof -
  let ?st1 = "st\<lparr>store := s\<rparr>"
  let ?st' = "snd (AddBlackList ident True ?st1)"
  have step: "Check ident st = ((cnt, Some (Base (BlockError (config (limiter st))))), ?st')"
    using Check_counted [OF nw nb fl] forever bt ge by simp
  from ok have ok1: "fault (store ?st1) = None" by simp
  have add: "AddBlackList ident True ?st1 =
      (None,
       ?st1\<lparr>store := snd (SAdd (blackListKey (limiter ?st1)) ident (store ?st1)),
             limiter := (limiter ?st1)\<lparr>blackList := blackList (limiter ?st1) @ [ident]\<rparr>,
             published := published ?st1 @
               (if True \<and> Pub (config (limiter ?st1))
                then [(Name (config (limiter ?st1)), ''addBlackList-'' @ ident)] else [])\<rparr>)"
    using AddBlackList_ok [OF ok1, of ident True] nb by simp
  have bl: "blackList (limiter ?st') = blackList (limiter st) @ [ident]"
    using add by simp
  have mem: "ident \<in> set (sets (store ?st') (blackListKey (limiter st)))"
    using add SAdd_ok [OF ok, of "blackListKey (limiter st)" ident] by simp
  have pubs: "published ?st' =
      published st @ (if Pub (config (limiter st))
                      then [(Name (config (limiter st)), ''addBlackList-'' @ ident)] else [])"
    using add by simp
  have wl: "whiteList (limiter ?st') = whiteList (limiter st)"
    and cf: "config (limiter ?st') = config (limiter st)"
    using add by simp_all
  have later: "Check ident (after_checks js ?st') =
      ((0, Some (Base (BlockError (config (limiter st))))), after_checks js ?st')" for js
  proof -
    from after_checks_keeps [of js ?st'] bl wl cf nw
    have "ident \<notin> set (whiteList (limiter (after_checks js ?st')))"
      and "ident \<in> set (blackList (limiter (after_checks js ?st')))"
      and "config (limiter (after_checks js ?st')) = config (limiter st)"
      by auto
    then show ?thesis by (simp add: Check_def Contains_set Let_def)
  qed
  from step add bl mem pubs later show ?thesis by simp
qed


text \<open>A limiter that blocks for ever at the first request: the identity is listed, the event
  published, and later calls take the override path.\<close>

theorem Check_escalates_run:
  "fst (Check ''u'' (strict example_state)) = (1, Some (Base (Some ErrorBlock))) \<and>
   blackList (limiter (snd (Check ''u'' (strict example_state)))) = [''u''] \<and>
   published (snd (Check ''u'' (strict example_state))) = [(''api'', ''addBlackList-u'')] \<and>
   Check ''u'' (after_checks [''v'', ''u''] (snd (Check ''u'' (strict example_state)))) =
     ((0, Some (Base (Some ErrorBlock))),
      after_checks [''v'', ''u''] (snd (Check ''u'' (strict example_state))))"
proof -
  let ?st = "strict example_state"
  have cfg: "config (limiter ?st) =
      example_config\<lparr>WarningError := Some ErrorWarning, BlockError := Some ErrorBlock,
                     BlockTimes := 1\<rparr>"
    and lists: "whiteList (limiter ?st) = []" "blackList (limiter ?st) = []"
    and st: "store ?st = empty_store" and pubs: "published ?st = []"
    and key: "blackListKey (limiter ?st) = ''api-black''"
    by (simp_all add: strict_def example_state_def example_limiter_def)
  have f0: "fault (store ?st) = None"
    by (simp add: st empty_store_def fault_def)
  have nw: "''u'' \<notin> set (whiteList (limiter ?st))" and nb: "''u'' \<notin> set (blackList (limiter ?st))"
    by (simp_all add: lists)
  have forever: "BlockDuration (config (limiter ?st)) = 0"
    and bt: "0 < BlockTimes (config (limiter ?st))"
    and pub: "Pub (config (limiter ?st))" and name: "Name (config (limiter ?st)) = ''api''"
    and be: "BlockError (config (limiter ?st)) = Some ErrorBlock"
    by (simp_all add: cfg example_config_def)
  obtain s where fl: "FrequencyLimit (Name (config (limiter ?st)) @ '':'' @ ''u'') 0
      (Duration (config (limiter ?st))) (store ?st) = (Inr 1, s)"
    and fs: "faults s = []"
    using FrequencyLimit_ok [OF f0] by (simp add: st empty_store_def)
  have ge: "BlockTimes (config (limiter ?st)) \<le> 1" by (simp add: cfg)
  have ok: "fault s = None" by (simp add: fault_def fs)
  note esc = Check_escalates [OF nw nb forever fl bt ge ok]
  from esc [THEN conjunct1]
  have r: "fst (Check ''u'' ?st) = (1, Some (Base (Some ErrorBlock)))"
    by (simp add: be)
  from esc [THEN conjunct2, THEN conjunct2, THEN conjunct1]
  have b: "blackList (limiter (snd (Check ''u'' ?st))) = [''u'']"
    by (simp add: lists)
  from esc [THEN conjunct2, THEN conjunct2, THEN conjunct2, THEN conjunct2, THEN conjunct1]
  have p: "published (snd (Check ''u'' ?st)) = [(''api'', ''addBlackList-u'')]"
    by (simp add: pub name pubs)
  from esc [THEN conjunct2, THEN conjunct2, THEN conjunct2, THEN conjunct2, THEN conjunct2,
      THEN spec, of "[''v'', ''u'']"]
  have l: "Check ''u'' (after_checks [''v'', ''u''] (snd (Check ''u'' ?st))) =
     ((0, Some (Base (Some ErrorBlock))), after_checks [''v'', ''u''] (snd (Check ''u'' ?st)))"
    by (simp only: be)
  from r b p l show ?thesis by (intro conjI)
qed


section \<open>Store failures on the way through Check\<close>

text \<open>
  C4, as the code has it. For an identity in neither local list, a failure of the counter
  increment is returned as it is, with count 0, after that one call (the state changes by
  the Store's call log only). When the increment succeeds with a count at or above a block
  threshold that is set, and the Store call that follows (the set-add of the escalation
  when the block duration is 0, the expiry otherwise) fails, that failure is dropped:
  \<^verbatim>\<open>Check\<close> returns the count with the block error, the call is made once, and neither
  the local lists nor the publisher see anything.
\<close>

theorem Check_store_failure:
  assumes nw: "ident \<notin> set (whiteList (limiter st))"
    and nb: "ident \<notin> set (blackList (limiter st))"
  shows "(fault (store st) = Some e \<longrightarrow>
            Check ident st =
              ((0, Some (StoreError e)),
               st\<lparr>store := called (CallFrequencyLimit (Name (config (limiter st)) @ '':'' @ ident) 0
                                      (Duration (config (limiter st)))) (store st)\<rparr>)) \<and>
         (FrequencyLimit (Name (config (limiter st)) @ '':'' @ ident) 0
            (Duration (config (limiter st))) (store st) = (Inr cnt, s) \<and>
          0 < BlockTimes (config (limiter st)) \<and> BlockTimes (config (limiter st)) \<le> cnt \<and>
          fault s = Some e' \<longrightarrow>
            Check ident st =
              ((cnt, Some (Base (BlockError (config (limiter st))))),
               st\<lparr>store := called
                   (if BlockDuration (config (limiter st)) = 0
                    then CallSAdd (blackListKey (limiter st)) ident
                    else CallExpire (Name (config (limiter st)) @ '':'' @ ident)
                           (BlockDuration (config (limiter st)))) s\<rparr>))"
proof (intro conjI impI)
  assume f: "fault (store st) = Some e"
  show "Check ident st =
      ((0, Some (StoreError e)),
       st\<lparr>store := called (CallFrequencyLimit (Name (config (limiter st)) @ '':'' @ ident) 0
                              (Duration (config (limiter st)))) (store st)\<rparr>)"
    using Check_failed [OF nw nb FrequencyLimit_fail [OF f]] .
next
  assume a: "FrequencyLimit (Name (config (limiter st)) @ '':'' @ ident) 0
            (Duration (config (limiter st))) (store st) = (Inr cnt, s) \<and>
          0 < BlockTimes (config (limiter st)) \<and> BlockTimes (config (limiter st)) \<le> cnt \<and>
          fault s = Some e'"
  then have fl: "FrequencyLimit (Name (config (limiter st)) @ '':'' @ ident) 0
            (Duration (config (limiter st))) (store st) = (Inr cnt, s)"
    and bt: "0 < BlockTimes (config (limiter st))" "BlockTimes (config (limiter st)) \<le> cnt"
    and f: "fault s = Some e'"
    by simp_all
  from f have f1: "fault (store (st\<lparr>store := s\<rparr>)) = Some e'" by simp
  have add: "snd (AddBlackList ident True (st\<lparr>store := s\<rparr>)) =
      st\<lparr>store := called (CallSAdd (blackListKey (limiter st)) ident) s\<rparr>"
    using AddBlackList_fail [OF f1, of ident True] by simp
  have ex: "snd (Expire (Name (config (limiter st)) @ '':'' @ ident)
                  (BlockDuration (config (limiter st))) s) =
      called (CallExpire (Name (config (limiter st)) @ '':'' @ ident)
                (BlockDuration (config (limiter st)))) s"
    using f by (simp add: Expire_def)
  show "Check ident st =
      ((cnt, Some (Base (BlockError (config (limiter st))))),
       st\<lparr>store := called
           (if BlockDuration (config (limiter st)) = 0
            then CallSAdd (blackListKey (limiter st)) ident
            else CallExpire (Name (config (limiter st)) @ '':'' @ ident)
                   (BlockDuration (config (limiter st)))) s\<rparr>)"
    using Check_counted [OF nw nb fl] bt add ex by simp
qed

lemmas example_defs =
  example_state_def example_limiter_def example_config_def empty_store_def
  listed_def escalated_def strict_def timed_def failing_def

lemmas store_defs =
  FrequencyLimit_def Expire_def Del_def SAdd_def SRem_def SMembers_def called_def fault_def

text \<open>A failing increment, and a failing set-add after a successful increment.\<close>

theorem Check_store_failure_run:
  "Check ''u'' (failing [Some ''down''] example_state) =
     ((0, Some (StoreError ''down'')),
      example_state\<lparr>store := empty_store\<lparr>calls := [CallFrequencyLimit ''api:u'' 0 10000000000]\<rparr>\<rparr>) \<and>
   Check ''u'' (failing [None, Some ''down''] (strict example_state)) =
     ((1, Some (Base (Some ErrorBlock))),
      strict example_state
        \<lparr>store := empty_store
           \<lparr>counters := (\<lambda>k. None)(''api:u'' \<mapsto> (1, 10000000000)),
            calls := [CallFrequencyLimit ''api:u'' 0 10000000000, CallSAdd ''api-black'' ''u'']\<rparr>\<rparr>)"
proof
  let ?st = "failing [Some ''down''] example_state"
  have "''u'' \<notin> set (whiteList (limiter ?st))" and "''u'' \<notin> set (blackList (limiter ?st))"
    and f: "fault (store ?st) = Some ''down''"
    by (simp_all add: example_defs fault_def)
  from Check_store_failure [OF this(1,2), of "''down''", THEN conjunct1, rule_format, OF f]
  show "Check ''u'' ?st =
     ((0, Some (StoreError ''down'')),
      example_state\<lparr>store := empty_store\<lparr>calls := [CallFrequencyLimit ''api:u'' 0 10000000000]\<rparr>\<rparr>)"
    by (simp add: example_defs called_def)
next
  let ?st = "failing [None, Some ''down''] (strict example_state)"
  let ?s = "empty_store\<lparr>counters := (\<lambda>k. None)(''api:u'' \<mapsto> (1, 10000000000)),
                        faults := [Some ''down''],
                        calls := [CallFrequencyLimit ''api:u'' 0 10000000000]\<rparr>"
  have nw: "''u'' \<notin> set (whiteList (limiter ?st))" and nb: "''u'' \<notin> set (blackList (limiter ?st))"
    by (simp_all add: example_defs)
  have "FrequencyLimit (Name (config (limiter ?st)) @ '':'' @ ''u'') 0
          (Duration (config (limiter ?st))) (store ?st) = (Inr 1, ?s) \<and>
        0 < BlockTimes (config (limiter ?st)) \<and> BlockTimes (config (limiter ?st)) \<le> 1 \<and>
        fault ?s = Some ''down''"
    by (simp add: example_defs store_defs)
  from Check_store_failure [OF nw nb, THEN conjunct2, rule_format, OF this]
  show "Check ''u'' ?st =
     ((1, Some (Base (Some ErrorBlock))),
      strict example_state
        \<lparr>store := empty_store
           \<lparr>counters := (\<lambda>k. None)(''api:u'' \<mapsto> (1, 10000000000)),
            calls := [CallFrequencyLimit ''api:u'' 0 10000000000, CallSAdd ''api-black'' ''u'']\<rparr>\<rparr>)"
    by (simp add: example_defs called_def)
qed

text \<open>The Store's second call fails with \<open>down\<close>: the set-add of the escalation in the first
  limiter, the expiry in the second. Both calls are made, both fail, and \<^verbatim>\<open>Check\<close> returns
  the block error, not the Store's.\<close>

theorem Check_drops_store_failure:
  "fst (SAdd ''api-black'' ''u''
         (snd (FrequencyLimit ''api:u'' 0 10000000000
                (store (failing [None, Some ''down''] (strict example_state)))))) =
     Inl (StoreError ''down'') \<and>
   fst (Check ''u'' (failing [None, Some ''down''] (strict example_state))) =
     (1, Some (Base (Some ErrorBlock))) \<and>
   calls (store (snd (Check ''u'' (failing [None, Some ''down''] (strict example_state))))) =
     [CallFrequencyLimit ''api:u'' 0 10000000000, CallSAdd ''api-black'' ''u''] \<and>
   fst (Expire ''api:u'' 30000000000
         (snd (FrequencyLimit ''api:u'' 0 10000000000
                (store (failing [None, Some ''down''] (timed (strict example_state))))))) =
     Inl (StoreError ''down'') \<and>
   fst (Check ''u'' (failing [None, Some ''down''] (timed (strict example_state)))) =
     (1, Some (Base (Some ErrorBlock))) \<and>
   calls (store (snd (Check ''u'' (failing [None, Some ''down''] (timed (strict example_state)))))) =
     [CallFrequencyLimit ''api:u'' 0 10000000000, CallExpire ''api:u'' 30000000000]"
  by (simp add: example_defs store_defs Check_def AddBlackList_def Let_def)


section \<open>Adding twice\<close>

text \<open>
  C6. With a Store whose next two calls succeed and a local whitelist that holds the
  identity at most once, the second of two calls of \<^verbatim>\<open>AddWhiteList\<close> for the identity
  fails with the whitelist-exists error and the local whitelist then holds the identity
  exactly once. On that failing second call the Store's set-add has been made (it is the
  last call in the Store's log, and the identity is a member of the Store's set), while
  the limiter and the publisher are left as the first call left them.
\<close>

theorem AddWhiteList_twice:
  assumes ok: "store_ok 2 (store st)"
    and once: "count_list (whiteList (limiter st)) ident \<le> 1"
  shows "fst (AddWhiteList ident q (snd (AddWhiteList ident p st))) =
           Some (Base (Some ErrorWhiteListExists)) \<and>
         count_list (whiteList (limiter (snd (AddWhiteList ident q (snd (AddWhiteList ident p st))))))
           ident = 1 \<and>
         calls (store (snd (AddWhiteList ident q (snd (AddWhiteList ident p st))))) =
           calls (store (snd (AddWhiteList ident p st))) @
             [CallSAdd (whiteListKey (limiter st)) ident] \<and>
         ident \<in> set (sets (store (snd (AddWhiteList ident q (snd (AddWhiteList ident p st)))))
                        (whiteListKey (limiter st))) \<and>
         limiter (snd (AddWhiteList ident q (snd (AddWhiteList ident p st)))) =
           limiter (snd (AddWhiteList ident p st)) \<and>
         published (snd (AddWhiteList ident q (snd (AddWhiteList ident p st)))) =
           published (snd (AddWhiteList ident p st))"
proof -
  let ?key = "whiteListKey (limiter st)"
  let ?st1 = "snd (AddWhiteList ident p st)"
  from ok have ok': "store_ok (Suc 1) (store st)" by (simp add: eval_nat_numeral)
  then have f0: "fault (store st) = None" by (rule store_ok_fault)
  have s1: "store ?st1 = snd (SAdd ?key ident (store st))"
    using AddWhiteList_ok [OF f0, of ident p] by simp
  have "store_ok 1 (store ?st1)"
    using s1 SAdd_ok [OF f0, of ?key ident] store_ok_called [OF ok'] by simp
  then have f1: "fault (store ?st1) = None" by (simp add: store_ok_fault)
  have key1: "whiteListKey (limiter ?st1) = ?key"
    using AddWhiteList_ok [OF f0, of ident p] by simp
  have mem1: "ident \<in> set (whiteList (limiter ?st1))"
    using AddWhiteList_ok [OF f0, of ident p] by simp
  have cnt1: "count_list (whiteList (limiter ?st1)) ident = 1"
  proof (cases "ident \<in> set (whiteList (limiter st))")
    case True
    then have "count_list (whiteList (limiter st)) ident \<noteq> 0" by (simp add: count_list_0_iff)
    with once have "count_list (whiteList (limiter st)) ident = 1" by arith
    with True show ?thesis using AddWhiteList_ok [OF f0, of ident p] by simp
  next
    case False
    then have "count_list (whiteList (limiter st)) ident = 0" by (simp add: count_list_0_iff)
    with False show ?thesis using AddWhiteList_ok [OF f0, of ident p] by simp
  qed
  have second: "AddWhiteList ident q ?st1 =
      (Some (Base (Some ErrorWhiteListExists)), ?st1\<lparr>store := snd (SAdd ?key ident (store ?st1))\<rparr>)"
    using AddWhiteList_ok [OF f1, of ident q] mem1 key1 by simp
  have sadd: "calls (snd (SAdd ?key ident (store ?st1))) = calls (store ?st1) @ [CallSAdd ?key ident]"
    and smem: "ident \<in> set (sets (snd (SAdd ?key ident (store ?st1))) ?key)"
    using SAdd_ok [OF f1, of ?key ident] by simp_all
  from second cnt1 sadd smem show ?thesis by simp
qed

text \<open>Adding \<open>alice\<close> twice to the example limiter.\<close>

theorem AddWhiteList_twice_run:
  "fst (AddWhiteList ''alice'' True example_state) = None \<and>
   fst (AddWhiteList ''alice'' True (snd (AddWhiteList ''alice'' True example_state))) =
     Some (Base (Some ErrorWhiteListExists)) \<and>
   count_list (whiteList (limiter
     (snd (AddWhiteList ''alice'' True (snd (AddWhiteList ''alice'' True example_state))))))
     ''alice'' = 1"
proof -
  have ok: "store_ok 2 (store example_state)"
    and once: "count_list (whiteList (limiter example_state)) ''alice'' \<le> 1"
    by (simp_all add: example_defs store_ok_def)
  have first: "fst (AddWhiteList ''alice'' True example_state) = None"
    by (simp add: example_defs store_defs AddWhiteList_def Let_def set_whiteList_def publish_def)
  note twice = AddWhiteList_twice [OF ok once, of True True]
  from first twice [THEN conjunct1] twice [THEN conjunct2, THEN conjunct1]
  show ?thesis by (intro conjI)
qed


section \<open>Removing from the blacklist\<close>

lemma remove1_once: "count_list xs x \<le> 1 \<Longrightarrow> x \<notin> set (remove1 x xs)"
proof (induction xs)
  case Nil
  show ?case by simp
next
  case (Cons y ys)
  show ?case
  proof (cases "y = x")
    case True
    with Cons.prems have "count_list ys x = 0" by simp
    with True show ?thesis by (simp add: count_list_0_iff)
  next
    case False
    with Cons show ?thesis by simp
  qed
qed

lemma Check_counted_fst:
  assumes "ident \<notin> set (whiteList (limiter st))" and "ident \<notin> set (blackList (limiter st))"
    and "FrequencyLimit (Name (config (limiter st)) @ '':'' @ ident) 0
           (Duration (config (limiter st))) (store st) = (Inr cnt, s)"
  shows "fst (Check ident st) =
    (cnt,
     if 0 < BlockTimes (config (limiter st)) \<and> BlockTimes (config (limiter st)) \<le> cnt
     then Some (Base (BlockError (config (limiter st))))
     else if 0 < WarningTimes (config (limiter st)) \<and> WarningTimes (config (limiter st)) \<le> cnt
     then Some (Base (WarningError (config (limiter st))))
     else None)"
  using Check_counted [OF assms] by simp

lemma remove1_twice: "1 < count_list xs x \<Longrightarrow> x \<in> set (remove1 x xs)"
proof (induction xs)
  case Nil
  then show ?case by simp
next
  case (Cons y ys)
  show ?case
  proof (cases "y = x")
    case True
    with Cons.prems have "count_list ys x \<noteq> 0" by simp
    with True show ?thesis by (simp add: count_list_0_iff)
  next
    case False
    with Cons show ?thesis by simp
  qed
qed

text \<open>
  C7, as the code has it. With a Store whose next three calls succeed and an identity
  that is not whitelisted, \<^verbatim>\<open>RemoveBlackList\<close> returns no error whether or not the identity
  is listed, takes the identity out of the Store's blacklist set, removes its first
  occurrence from the local blacklist and deletes its counter key. When the local
  blacklist held the identity at most once, the identity is then in neither list and the
  next \<^verbatim>\<open>Check\<close> counts from 1 again, whatever the count was before: it returns count 1,
  with no error unless a threshold is set to 1. When the local blacklist held the
  identity more than once, the identity is still in it and the next \<^verbatim>\<open>Check\<close> returns
  \<open>(0, Blocked)\<close> and leaves the state as it is.
\<close>

theorem RemoveBlackList_resets:
  assumes ok: "store_ok 3 (store st)"
    and nw: "ident \<notin> set (whiteList (limiter st))"
  shows "fst (RemoveBlackList ident pub st) = None \<and>
         ident \<notin> set (sets (store (snd (RemoveBlackList ident pub st))) (blackListKey (limiter st))) \<and>
         blackList (limiter (snd (RemoveBlackList ident pub st))) =
           remove1 ident (blackList (limiter st)) \<and>
         counters (store (snd (RemoveBlackList ident pub st)))
           (Name (config (limiter st)) @ '':'' @ ident) = None \<and>
         (count_list (blackList (limiter st)) ident \<le> 1 \<longrightarrow>
            ident \<notin> set (blackList (limiter (snd (RemoveBlackList ident pub st)))) \<and>
            fst (Check ident (snd (RemoveBlackList ident pub st))) =
              (1, if BlockTimes (config (limiter st)) = 1
                  then Some (Base (BlockError (config (limiter st))))
                  else if WarningTimes (config (limiter st)) = 1
                  then Some (Base (WarningError (config (limiter st))))
                  else None)) \<and>
         (1 < count_list (blackList (limiter st)) ident \<longrightarrow>
            ident \<in> set (blackList (limiter (snd (RemoveBlackList ident pub st)))) \<and>
            Check ident (snd (RemoveBlackList ident pub st)) =
              ((0, Some (Base (BlockError (config (limiter st))))),
               snd (RemoveBlackList ident pub st)))"
proof -
  let ?bkey = "blackListKey (limiter st)"
  let ?key = "Name (config (limiter st)) @ '':'' @ ident"
  let ?st3 = "st\<lparr>store := snd (SRem ?bkey ident (store st)),
          limiter := (limiter st)\<lparr>blackList := remove1 ident (blackList (limiter st))\<rparr>,
          published := published st @
            (if pub \<and> Pub (config (limiter st))
             then [(Name (config (limiter st)), ''removeBlackList-'' @ ident)] else [])\<rparr>"
  let ?st' = "snd (RemoveBlackList ident pub st)"
  from ok have ok3: "store_ok (Suc 2) (store st)" by (simp add: eval_nat_numeral)
  then have f0: "fault (store st) = None" by (rule store_ok_fault)
  have srem: "snd (SRem ?bkey ident (store st)) =
      (called (CallSRem ?bkey ident) (store st))
        \<lparr>sets := (sets (store st))(?bkey := removeAll ident (sets (store st) ?bkey))\<rparr>"
    using SRem_ok [OF f0, of ?bkey ident] by simp
  have "store_ok 2 (store ?st3)"
    using srem store_ok_called [OF ok3] by simp
  then have ok2: "store_ok (Suc 1) (store ?st3)" by (simp add: eval_nat_numeral)
  then have f1: "fault (store ?st3) = None" by (rule store_ok_fault)
  have rm: "RemoveBlackList ident pub st = CheckReset ident ?st3"
    by (rule RemoveBlackList_ok [OF f0])
  note reset = CheckReset_ok [OF f1, of ident]
  have res: "fst (RemoveBlackList ident pub st) = None"
    using rm reset by simp
  have st': "?st' = ?st3\<lparr>store := (called (CallDel ?key) (store ?st3))
           \<lparr>counters := (counters (store ?st3))(?key := None)\<rparr>\<rparr>"
    using rm reset by simp
  have sets': "ident \<notin> set (sets (store ?st') ?bkey)"
    by (subst st') (simp add: srem)
  have bl': "blackList (limiter ?st') = remove1 ident (blackList (limiter st))"
    by (subst st') simp
  have nw': "ident \<notin> set (whiteList (limiter ?st'))"
    by (subst st') (simp add: nw)
  have cf': "config (limiter ?st') = config (limiter st)"
    by (subst st') simp
  have ctr': "counters (store ?st') ?key = None"
    by (subst st') simp
  have "store_ok 1 (store ?st')"
    using store_ok_called [OF ok2, of "CallDel ?key"] by (subst st') simp
  then have f2: "fault (store ?st') = None" by (simp add: store_ok_fault)
  have single: "ident \<notin> set (blackList (limiter ?st')) \<and>
      fst (Check ident ?st') =
           (1, if BlockTimes (config (limiter st)) = 1
               then Some (Base (BlockError (config (limiter st))))
               else if WarningTimes (config (limiter st)) = 1
               then Some (Base (WarningError (config (limiter st))))
               else None)"
    if once: "count_list (blackList (limiter st)) ident \<le> 1"
  proof -
    have nb': "ident \<notin> set (blackList (limiter ?st'))"
      using bl' remove1_once [OF once] by simp
    obtain s where fl: "FrequencyLimit (Name (config (limiter ?st')) @ '':'' @ ident) 0
        (Duration (config (limiter ?st'))) (store ?st') = (Inr 1, s)"
      using FrequencyLimit_ok [OF f2] ctr' cf' by simp
    have "fst (Check ident ?st') =
           (1, if BlockTimes (config (limiter st)) = 1
               then Some (Base (BlockError (config (limiter st))))
               else if WarningTimes (config (limiter st)) = 1
               then Some (Base (WarningError (config (limiter st))))
               else None)"
      using Check_counted_fst [OF nw' nb' fl] cf' by auto
    with nb' show ?thesis by (intro conjI)
  qed
  have double: "ident \<in> set (blackList (limiter ?st')) \<and>
      Check ident ?st' = ((0, Some (Base (BlockError (config (limiter st))))), ?st')"
    if twice: "1 < count_list (blackList (limiter st)) ident"
  proof -
    have b': "ident \<in> set (blackList (limiter ?st'))"
      using bl' remove1_twice [OF twice] by simp
    have "Check ident ?st' = ((0, Some (Base (BlockError (config (limiter st))))), ?st')"
      using nw' b' cf' by (simp add: Check_def Contains_set Let_def)
    with b' show ?thesis by (intro conjI)
  qed
  from res sets' bl' ctr' single double show ?thesis by blast
qed

text \<open>
  An identity blacklisted once with its counter at 5 is removed and checked again; then
  the same with the identity twice in the local blacklist.
\<close>

theorem RemoveBlackList_resets_run:
  "fst (Check ''u'' (escalated example_state)) = (0, Some (Base (Some ErrorBlock))) \<and>
   counters (store (escalated example_state)) ''api:u'' = Some (5, 10000000000) \<and>
   fst (RemoveBlackList ''u'' True (escalated example_state)) = None \<and>
   blackList (limiter (snd (RemoveBlackList ''u'' True (escalated example_state)))) = [] \<and>
   fst (Check ''u'' (snd (RemoveBlackList ''u'' True (escalated example_state)))) = (1, None) \<and>
   fst (Check ''u'' (snd (RemoveBlackList ''u'' True (set_blackList [''u'', ''u''] example_state)))) =
     (0, Some (Base (Some ErrorBlock)))"
proof -
  let ?st = "escalated example_state"
  let ?dup = "set_blackList [''u'', ''u''] example_state"
  have ok: "store_ok 3 (store ?st)"
    and nw: "''u'' \<notin> set (whiteList (limiter ?st))"
    and once: "count_list (blackList (limiter ?st)) ''u'' \<le> 1"
    by (simp_all add: example_defs store_ok_def)
  have okd: "store_ok 3 (store ?dup)"
    and nwd: "''u'' \<notin> set (whiteList (limiter ?dup))"
    and twice: "1 < count_list (blackList (limiter ?dup)) ''u''"
    and bed: "BlockError (config (limiter ?dup)) = Some ErrorBlock"
    by (simp_all add: example_defs store_ok_def set_blackList_def)
  have before: "fst (Check ''u'' ?st) = (0, Some (Base (Some ErrorBlock)))"
    and ctr: "counters (store ?st) ''api:u'' = Some (5, 10000000000)"
    by (simp_all add: example_defs Check_def Let_def)
  have cfg: "BlockTimes (config (limiter ?st)) = 5" "WarningTimes (config (limiter ?st)) = 3"
    and bl: "blackList (limiter ?st) = [''u'']"
    by (simp_all add: example_defs)
  note rm = RemoveBlackList_resets [OF ok nw, of True]
  from rm [THEN conjunct1]
  have a: "fst (RemoveBlackList ''u'' True ?st) = None" .
  from rm [THEN conjunct2, THEN conjunct2, THEN conjunct1]
  have b: "blackList (limiter (snd (RemoveBlackList ''u'' True ?st))) = []"
    by (simp add: bl)
  from rm [THEN conjunct2, THEN conjunct2, THEN conjunct2, THEN conjunct2, THEN conjunct1,
      rule_format, OF once, THEN conjunct2]
  have c: "fst (Check ''u'' (snd (RemoveBlackList ''u'' True ?st))) = (1, None)"
    by (simp add: cfg)
  from RemoveBlackList_resets [OF okd nwd, of True, THEN conjunct2, THEN conjunct2,
      THEN conjunct2, THEN conjunct2, THEN conjunct2, rule_format, OF twice, THEN conjunct2]
  have "Check ''u'' (snd (RemoveBlackList ''u'' True ?dup)) =
      ((0, Some (Base (Some ErrorBlock))), snd (RemoveBlackList ''u'' True ?dup))"
    by (simp only: bed)
  then have d: "fst (Check ''u'' (snd (RemoveBlackList ''u'' True ?dup))) =
      (0, Some (Base (Some ErrorBlock)))"
    by simp
  from before ctr a b c d show ?thesis by (intro conjI)
qed

text \<open>
  A limiter built by \<^verbatim>\<open>New\<close> from a configured blacklist that names \<open>u\<close> twice: the
  removal returns no error and cuts one occurrence, \<open>u\<close> is still listed, and the next
  \<^verbatim>\<open>Check\<close> is blocked on the override path instead of counting from 1.
\<close>

theorem RemoveBlackList_leaves_duplicate:
  "\<not> isl (New (Some (example_config\<lparr>BlackList := [''u'', ''u'']\<rparr>)) empty_store []) \<and>
   blackList (limiter (projr
     (New (Some (example_config\<lparr>BlackList := [''u'', ''u'']\<rparr>)) empty_store []))) =
     [''u'', ''u''] \<and>
   fst (RemoveBlackList ''u'' True (projr
     (New (Some (example_config\<lparr>BlackList := [''u'', ''u'']\<rparr>)) empty_store []))) = None \<and>
   blackList (limiter (snd (RemoveBlackList ''u'' True (projr
     (New (Some (example_config\<lparr>BlackList := [''u'', ''u'']\<rparr>)) empty_store []))))) =
     [''u''] \<and>
   fst (Check ''u'' (snd (RemoveBlackList ''u'' True (projr
     (New (Some (example_config\<lparr>BlackList := [''u'', ''u'']\<rparr>)) empty_store []))))) =
     (0, Some (Base (Some ErrorBlock)))"
proof -
  have new: "New (Some (example_config\<lparr>BlackList := [''u'', ''u'']\<rparr>)) empty_store [] =
      Inr \<lparr>limiter =
             \<lparr>config = example_config\<lparr>BlackList := [''u'', ''u''],
                                       BlockError := Some ErrorBlock,
                                       WarningError := Some ErrorWarning\<rparr>,
              whiteList = [], blackList = [''u'', ''u''],
              whiteListKey = ''api-white'', blackListKey = ''api-black''\<rparr>,
            store = empty_store\<lparr>calls := [CallSMembers ''api-white'', CallSMembers ''api-black'']\<rparr>,
            published = []\<rparr>"
    by (simp add: New_def SMembers_def Let_def called_def fault_def example_config_def
        empty_store_def)
  show ?thesis
    unfolding new
    by (simp add: RemoveBlackList_def CheckReset_def Check_def store_defs Let_def cut_def
        set_blackList_def publish_def example_config_def empty_store_def)
qed

text \<open>
  C10. When the Store's set-removal fails, \<^verbatim>\<open>RemoveBlackList\<close> returns that error after
  that one call: the limiter, the publisher, the counters and the sets are as before.
  When it succeeds, the result is the result of \<^verbatim>\<open>CheckReset\<close>, run after the identity
  has left the Store's set and the local list and after the event (if asked for, and if
  there is a publisher) has been published. So when the removal succeeds and the deletion
  of the counter fails, the call returns the deletion's error although the identity is
  out of the set and of the local list and the event is out; the counters are untouched.
\<close>

theorem RemoveBlackList_failures:
  "(fault (store st) = Some e \<longrightarrow>
      fst (RemoveBlackList ident pub st) = Some (StoreError e) \<and>
      limiter (snd (RemoveBlackList ident pub st)) = limiter st \<and>
      published (snd (RemoveBlackList ident pub st)) = published st \<and>
      counters (store (snd (RemoveBlackList ident pub st))) = counters (store st) \<and>
      sets (store (snd (RemoveBlackList ident pub st))) = sets (store st) \<and>
      calls (store (snd (RemoveBlackList ident pub st))) =
        calls (store st) @ [CallSRem (blackListKey (limiter st)) ident]) \<and>
   (fault (store st) = None \<longrightarrow>
      RemoveBlackList ident pub st =
        CheckReset ident
          (st\<lparr>store := snd (SRem (blackListKey (limiter st)) ident (store st)),
              limiter := (limiter st)\<lparr>blackList := remove1 ident (blackList (limiter st))\<rparr>,
              published := published st @
                (if pub \<and> Pub (config (limiter st))
                 then [(Name (config (limiter st)), ''removeBlackList-'' @ ident)] else [])\<rparr>)) \<and>
   (faults (store st) = None # Some e # fs \<longrightarrow>
      fst (RemoveBlackList ident pub st) = Some (StoreError e) \<and>
      ident \<notin> set (sets (store (snd (RemoveBlackList ident pub st))) (blackListKey (limiter st))) \<and>
      blackList (limiter (snd (RemoveBlackList ident pub st))) =
        remove1 ident (blackList (limiter st)) \<and>
      published (snd (RemoveBlackList ident pub st)) =
        published st @
          (if pub \<and> Pub (config (limiter st))
           then [(Name (config (limiter st)), ''removeBlackList-'' @ ident)] else []) \<and>
      counters (store (snd (RemoveBlackList ident pub st))) = counters (store st) \<and>
      calls (store (snd (RemoveBlackList ident pub st))) =
        calls (store st) @ [CallSRem (blackListKey (limiter st)) ident,
                            CallDel (Name (config (limiter st)) @ '':'' @ ident)])"
proof (intro conjI impI)
  assume f: "fault (store st) = None"
  show "RemoveBlackList ident pub st =
        CheckReset ident
          (st\<lparr>store := snd (SRem (blackListKey (limiter st)) ident (store st)),
              limiter := (limiter st)\<lparr>blackList := remove1 ident (blackList (limiter st))\<rparr>,
              published := published st @
                (if pub \<and> Pub (config (limiter st))
                 then [(Name (config (limiter st)), ''removeBlackList-'' @ ident)] else [])\<rparr>)"
    by (rule RemoveBlackList_ok [OF f])
next
  assume fs: "faults (store st) = None # Some e # fs"
  let ?bkey = "blackListKey (limiter st)"
  let ?st3 = "st\<lparr>store := snd (SRem ?bkey ident (store st)),
          limiter := (limiter st)\<lparr>blackList := remove1 ident (blackList (limiter st))\<rparr>,
          published := published st @
            (if pub \<and> Pub (config (limiter st))
             then [(Name (config (limiter st)), ''removeBlackList-'' @ ident)] else [])\<rparr>"
  from fs have f0: "fault (store st) = None" by (simp add: fault_def)
  have srem: "snd (SRem ?bkey ident (store st)) =
      (called (CallSRem ?bkey ident) (store st))
        \<lparr>sets := (sets (store st))(?bkey := removeAll ident (sets (store st) ?bkey))\<rparr>"
    using SRem_ok [OF f0, of ?bkey ident] by simp
  have f1: "fault (store ?st3) = Some e"
    using srem fs by (simp add: fault_def)
  have rm: "RemoveBlackList ident pub st =
      (Some (StoreError e),
       ?st3\<lparr>store := called (CallDel (Name (config (limiter ?st3)) @ '':'' @ ident)) (store ?st3)\<rparr>)"
    using RemoveBlackList_ok [OF f0, of ident pub] CheckReset_fail [OF f1, of ident] by simp
  show "fst (RemoveBlackList ident pub st) = Some (StoreError e)"
    by (subst rm) simp
  show "ident \<notin> set (sets (store (snd (RemoveBlackList ident pub st))) ?bkey)"
    by (subst rm) (simp add: srem)
  show "blackList (limiter (snd (RemoveBlackList ident pub st))) =
        remove1 ident (blackList (limiter st))"
    by (subst rm) simp
  show "published (snd (RemoveBlackList ident pub st)) =
        published st @
          (if pub \<and> Pub (config (limiter st))
           then [(Name (config (limiter st)), ''removeBlackList-'' @ ident)] else [])"
    by (subst rm) simp
  show "counters (store (snd (RemoveBlackList ident pub st))) = counters (store st)"
    by (subst rm) (simp add: srem)
  show "calls (store (snd (RemoveBlackList ident pub st))) =
        calls (store st) @ [CallSRem ?bkey ident,
                            CallDel (Name (config (limiter st)) @ '':'' @ ident)]"
    by (subst rm) (simp add: srem)
qed (simp_all add: RemoveBlackList_fail)

text \<open>The removal fails; the removal succeeds and the deletion fails.\<close>

theorem RemoveBlackList_failures_run:
  "RemoveBlackList ''u'' True (failing [Some ''down''] (escalated example_state)) =
     (Some (StoreError ''down''),
      escalated example_state
        \<lparr>store := (store (escalated example_state))\<lparr>calls := [CallSRem ''api-black'' ''u'']\<rparr>\<rparr>) \<and>
   fst (RemoveBlackList ''u'' True (failing [None, Some ''down''] (escalated example_state))) =
     Some (StoreError ''down'') \<and>
   blackList (limiter (snd (RemoveBlackList ''u'' True
     (failing [None, Some ''down''] (escalated example_state))))) = [] \<and>
   published (snd (RemoveBlackList ''u'' True
     (failing [None, Some ''down''] (escalated example_state)))) = [(''api'', ''removeBlackList-u'')] \<and>
   counters (store (snd (RemoveBlackList ''u'' True
     (failing [None, Some ''down''] (escalated example_state))))) ''api:u'' = Some (5, 10000000000)"
proof -
  let ?a = "failing [Some ''down''] (escalated example_state)"
  let ?b = "failing [None, Some ''down''] (escalated example_state)"
  have fa: "fault (store ?a) = Some ''down''"
    and fb: "faults (store ?b) = None # Some ''down'' # []"
    by (simp_all add: example_defs fault_def)
  have first: "RemoveBlackList ''u'' True ?a =
     (Some (StoreError ''down''),
      escalated example_state
        \<lparr>store := (store (escalated example_state))\<lparr>calls := [CallSRem ''api-black'' ''u'']\<rparr>\<rparr>)"
    by (simp add: example_defs store_defs RemoveBlackList_def)
  note second = RemoveBlackList_failures [of ?b "''down''" "''u''" True "[]",
      THEN conjunct2, THEN conjunct2, rule_format, OF fb]
  have "fst (RemoveBlackList ''u'' True ?a) = Some (StoreError ''down'')"
    using RemoveBlackList_failures [of ?a "''down''" "''u''" True, THEN conjunct1, rule_format, OF fa]
    by simp
  from second [THEN conjunct1]
  have r: "fst (RemoveBlackList ''u'' True ?b) = Some (StoreError ''down'')" .
  from second [THEN conjunct2, THEN conjunct2, THEN conjunct1]
  have b: "blackList (limiter (snd (RemoveBlackList ''u'' True ?b))) = []"
    by (simp add: example_defs)
  from second [THEN conjunct2, THEN conjunct2, THEN conjunct2, THEN conjunct1]
  have p: "published (snd (RemoveBlackList ''u'' True ?b)) = [(''api'', ''removeBlackList-u'')]"
    by (simp add: example_defs)
  from second [THEN conjunct2, THEN conjunct2, THEN conjunct2, THEN conjunct2, THEN conjunct1]
  have c: "counters (store (snd (RemoveBlackList ''u'' True ?b))) ''api:u'' = Some (5, 10000000000)"
    by (simp add: example_defs)
  from first r b p c show ?thesis by (intro conjI)
qed


section \<open>Messages\<close>

lemma Split_not_Nil: "Split xs sep \<noteq> []"
  by (induction xs) (auto split: list.splits)

lemma Split_one: "sep \<notin> set xs \<Longrightarrow> Split xs sep = [xs]"
  by (induction xs) auto

lemma Split_first: "sep \<notin> set a \<Longrightarrow> Split (a @ sep # b) sep = a # Split b sep"
  by (induction a) auto

lemma Split_length: "length (Split xs sep) = Suc (count_list xs sep)"
proof (induction xs)
  case Nil
  show ?case by simp
next
  case (Cons x xs)
  then show ?case by (cases "Split xs sep") (auto simp: Split_not_Nil)
qed

lemma Split_action:
  assumes "CHR ''-'' \<notin> set action"
  shows "Split (action @ ''-'' @ ident) CHR ''-'' = action # Split ident CHR ''-''"
  using Split_first [OF assms, of ident] by simp

lemma Sub_two:
  "Split message CHR ''-'' = [action, ident] \<Longrightarrow>
   Sub message st =
     (if action = ''removeWhiteList'' then RemoveWhiteList ident False st
      else if action = ''removeBlackList'' then RemoveBlackList ident False st
      else if action = ''addWhiteList'' then AddWhiteList ident False st
      else if action = ''addBlackList'' then AddBlackList ident False st
      else (None, st))"
  by (simp add: Sub_def Let_def)

lemma Sub_other: "length (Split message CHR ''-'') \<noteq> 2 \<Longrightarrow> Sub message st = (None, st)"
  by (simp add: Sub_def Let_def)

text \<open>
  C5, as the code has it. \<^verbatim>\<open>strings.Split\<close> cuts at every dash and \<^verbatim>\<open>Sub\<close> wants exactly
  two pieces. For an identity without a dash, the message of each of the four actions is
  dispatched to its mutation with the whole identity and publish = false. For an identity
  with a dash the message has more than two pieces and is ignored: no error, no change.
\<close>

theorem Sub_dispatch:
  "(CHR ''-'' \<notin> set ident \<longrightarrow>
      Sub (''removeWhiteList-'' @ ident) st = RemoveWhiteList ident False st \<and>
      Sub (''removeBlackList-'' @ ident) st = RemoveBlackList ident False st \<and>
      Sub (''addWhiteList-'' @ ident) st = AddWhiteList ident False st \<and>
      Sub (''addBlackList-'' @ ident) st = AddBlackList ident False st) \<and>
   (CHR ''-'' \<in> set ident \<and>
    action \<in> set [''removeWhiteList'', ''removeBlackList'', ''addWhiteList'', ''addBlackList''] \<longrightarrow>
      2 < length (Split (action @ ''-'' @ ident) CHR ''-'') \<and>
      Sub (action @ ''-'' @ ident) st = (None, st))"
proof (intro conjI impI)
  assume nodash: "CHR ''-'' \<notin> set ident"
  have two: "Split (action @ ''-'' @ ident) CHR ''-'' = [action, ident]"
    if "CHR ''-'' \<notin> set action" for action
    using Split_action [OF that, of ident] Split_one [OF nodash] by simp
  have "Split (''removeWhiteList'' @ ''-'' @ ident) CHR ''-'' = [''removeWhiteList'', ident]"
    by (rule two) simp
  then show "Sub (''removeWhiteList-'' @ ident) st = RemoveWhiteList ident False st"
    using Sub_two [of "''removeWhiteList-'' @ ident" "''removeWhiteList''" ident st] by simp
  have "Split (''removeBlackList'' @ ''-'' @ ident) CHR ''-'' = [''removeBlackList'', ident]"
    by (rule two) simp
  then show "Sub (''removeBlackList-'' @ ident) st = RemoveBlackList ident False st"
    using Sub_two [of "''removeBlackList-'' @ ident" "''removeBlackList''" ident st] by simp
  have "Split (''addWhiteList'' @ ''-'' @ ident) CHR ''-'' = [''addWhiteList'', ident]"
    by (rule two) simp
  then show "Sub (''addWhiteList-'' @ ident) st = AddWhiteList ident False st"
    using Sub_two [of "''addWhiteList-'' @ ident" "''addWhiteList''" ident st] by simp
  have "Split (''addBlackList'' @ ''-'' @ ident) CHR ''-'' = [''addBlackList'', ident]"
    by (rule two) simp
  then show "Sub (''addBlackList-'' @ ident) st = AddBlackList ident False st"
    using Sub_two [of "''addBlackList-'' @ ident" "''addBlackList''" ident st] by simp
next
  assume a: "CHR ''-'' \<in> set ident \<and>
    action \<in> set [''removeWhiteList'', ''removeBlackList'', ''addWhiteList'', ''addBlackList'']"
  then have "CHR ''-'' \<notin> set action" by auto
  then have sp: "Split (action @ ''-'' @ ident) CHR ''-'' = action # Split ident CHR ''-''"
    by (rule Split_action)
  from a have "count_list ident CHR ''-'' \<noteq> 0" by (simp add: count_list_0_iff)
  then have "1 < length (Split ident CHR ''-'')" by (simp add: Split_length)
  with sp show long: "2 < length (Split (action @ ''-'' @ ident) CHR ''-'')" by simp
  then show "Sub (action @ ''-'' @ ident) st = (None, st)" by (simp add: Sub_other)
qed

text \<open>A message for \<open>alice\<close> is dispatched, a message for \<open>a-b\<close> is dropped.\<close>

theorem Sub_dispatch_run:
  "Sub ''addWhiteList-alice'' example_state = AddWhiteList ''alice'' False example_state \<and>
   whiteList (limiter (snd (Sub ''addWhiteList-alice'' example_state))) = [''alice''] \<and>
   Sub ''addWhiteList-a-b'' example_state = (None, example_state)"
proof -
  have "CHR ''-'' \<notin> set ''alice''" by simp
  with Sub_dispatch [of "''alice''" example_state]
  have a: "Sub ''addWhiteList-alice'' example_state = AddWhiteList ''alice'' False example_state"
    by simp
  have b: "whiteList (limiter (snd (AddWhiteList ''alice'' False example_state))) = [''alice'']"
    by (simp add: example_defs store_defs AddWhiteList_def Let_def set_whiteList_def)
  have "CHR ''-'' \<in> set ''a-b'' \<and>
    ''addWhiteList'' \<in> set [''removeWhiteList'', ''removeBlackList'', ''addWhiteList'', ''addBlackList'']"
    by simp
  with Sub_dispatch [of "''a-b''" example_state "''addWhiteList''"]
  have c: "Sub ''addWhiteList-a-b'' example_state = (None, example_state)"
    by simp
  from a b c show ?thesis by simp
qed

text \<open>The message that \<^verbatim>\<open>AddWhiteList\<close> publishes for the identity \<open>a-b\<close> has three pieces;
  \<^verbatim>\<open>Sub\<close> ignores it, while the mutation itself would have listed \<open>a-b\<close>.\<close>

theorem Sub_ignores_dashed_identity:
  "Split ''addWhiteList-a-b'' CHR ''-'' = [''addWhiteList'', ''a'', ''b''] \<and>
   Sub ''addWhiteList-a-b'' example_state = (None, example_state) \<and>
   whiteList (limiter (snd (Sub ''addWhiteList-a-b'' example_state))) = [] \<and>
   whiteList (limiter (snd (AddWhiteList ''a-b'' False example_state))) = [''a-b'']"
  by (simp add: Sub_def example_defs store_defs AddWhiteList_def Let_def set_whiteList_def)


section \<open>The inbound path\<close>

lemma CheckReset_published: "published (snd (CheckReset ident st)) = published st"
  by (cases "fault (store st)") (simp_all add: CheckReset_ok CheckReset_fail)

lemma unpublished:
  "published (snd (RemoveWhiteList ident False st)) = published st"
  "published (snd (RemoveBlackList ident False st)) = published st"
  "published (snd (AddWhiteList ident False st)) = published st"
  "published (snd (AddBlackList ident False st)) = published st"
proof -
  show "published (snd (RemoveWhiteList ident False st)) = published st"
    by (cases "fault (store st)") (simp_all add: RemoveWhiteList_ok RemoveWhiteList_fail)
  show "published (snd (RemoveBlackList ident False st)) = published st"
    by (cases "fault (store st)")
      (simp_all add: RemoveBlackList_ok RemoveBlackList_fail CheckReset_published)
  show "published (snd (AddWhiteList ident False st)) = published st"
    by (cases "fault (store st)") (simp_all add: AddWhiteList_ok AddWhiteList_fail)
  show "published (snd (AddBlackList ident False st)) = published st"
    by (cases "fault (store st)") (simp_all add: AddBlackList_ok AddBlackList_fail)
qed

text \<open>
  C8. Whatever the message, \<^verbatim>\<open>Sub\<close> hands nothing to the publisher. A message of exactly
  two pieces is dispatched on its first piece to the mutation of that name, with the
  second piece and publish = false. A message that has not exactly two pieces, or whose
  first piece is none of the four actions, is ignored: \<^verbatim>\<open>Sub\<close> returns no error and the
  state, the Store included, is unchanged.
\<close>

theorem Sub_inbound:
  "published (snd (Sub message st)) = published st \<and>
   (Split message CHR ''-'' = [action, ident] \<longrightarrow>
      Sub message st =
        (if action = ''removeWhiteList'' then RemoveWhiteList ident False st
         else if action = ''removeBlackList'' then RemoveBlackList ident False st
         else if action = ''addWhiteList'' then AddWhiteList ident False st
         else if action = ''addBlackList'' then AddBlackList ident False st
         else (None, st))) \<and>
   (length (Split message CHR ''-'') \<noteq> 2 \<or>
    hd (Split message CHR ''-'') \<notin>
      set [''removeWhiteList'', ''removeBlackList'', ''addWhiteList'', ''addBlackList''] \<longrightarrow>
      Sub message st = (None, st))"
proof (intro conjI impI)
  show "published (snd (Sub message st)) = published st"
    by (simp add: Sub_def Let_def unpublished)
next
  assume "Split message CHR ''-'' = [action, ident]"
  then show "Sub message st =
        (if action = ''removeWhiteList'' then RemoveWhiteList ident False st
         else if action = ''removeBlackList'' then RemoveBlackList ident False st
         else if action = ''addWhiteList'' then AddWhiteList ident False st
         else if action = ''addBlackList'' then AddBlackList ident False st
         else (None, st))"
    by (rule Sub_two)
next
  assume a: "length (Split message CHR ''-'') \<noteq> 2 \<or>
    hd (Split message CHR ''-'') \<notin>
      set [''removeWhiteList'', ''removeBlackList'', ''addWhiteList'', ''addBlackList'']"
  show "Sub message st = (None, st)"
  proof (cases "length (Split message CHR ''-'') = 2")
    case False
    then show ?thesis by (rule Sub_other)
  next
    case True
    then obtain x y where sp: "Split message CHR ''-'' = [x, y]"
      by (cases "Split message CHR ''-''"; cases "tl (Split message CHR ''-'')") auto
    with a have "x \<notin> set [''removeWhiteList'', ''removeBlackList'', ''addWhiteList'', ''addBlackList'']"
      by simp
    with Sub_two [OF sp, of st] show ?thesis by auto
  qed
qed

text \<open>The three messages of the specification.\<close>

theorem Sub_inbound_run:
  "Sub ''bogus'' example_state = (None, example_state) \<and>
   Sub ''unknownAction-bob'' example_state = (None, example_state) \<and>
   whiteList (limiter (snd (Sub ''addWhiteList-alice'' example_state))) = [''alice''] \<and>
   published (snd (Sub ''addWhiteList-alice'' example_state)) = []"
proof -
  have "length (Split ''bogus'' CHR ''-'') \<noteq> 2 \<or>
    hd (Split ''bogus'' CHR ''-'') \<notin>
      set [''removeWhiteList'', ''removeBlackList'', ''addWhiteList'', ''addBlackList'']"
    by simp
  with Sub_inbound [of "''bogus''" example_state]
  have a: "Sub ''bogus'' example_state = (None, example_state)" by blast
  have "length (Split ''unknownAction-bob'' CHR ''-'') \<noteq> 2 \<or>
    hd (Split ''unknownAction-bob'' CHR ''-'') \<notin>
      set [''removeWhiteList'', ''removeBlackList'', ''addWhiteList'', ''addBlackList'']"
    by simp
  with Sub_inbound [of "''unknownAction-bob''" example_state]
  have b: "Sub ''unknownAction-bob'' example_state = (None, example_state)" by blast
  have "Split ''addWhiteList-alice'' CHR ''-'' = [''addWhiteList'', ''alice'']" by simp
  with Sub_inbound [of "''addWhiteList-alice''" example_state "''addWhiteList''" "''alice''"]
  have "Sub ''addWhiteList-alice'' example_state = AddWhiteList ''alice'' False example_state"
    by simp
  moreover have "whiteList (limiter (snd (AddWhiteList ''alice'' False example_state))) = [''alice'']"
    by (simp add: example_defs store_defs AddWhiteList_def Let_def set_whiteList_def)
  ultimately have c: "whiteList (limiter (snd (Sub ''addWhiteList-alice'' example_state))) = [''alice'']"
    by simp
  have "published (snd (Sub ''addWhiteList-alice'' example_state)) = published example_state"
    by (rule Sub_inbound [THEN conjunct1])
  moreover have "published example_state = []"
    by (simp add: example_defs)
  ultimately have d: "published (snd (Sub ''addWhiteList-alice'' example_state)) = []"
    by (rule trans)
  from a b c d show ?thesis by (intro conjI)
qed


section \<open>Construction\<close>

lemma copy_loop: "foldl (\<lambda>acc val. acc @ [val]) xs ys = xs @ ys"
  by (induction ys arbitrary: xs) simp_all

lemma merge_loop:
  "\<exists>rest. foldl (\<lambda>acc val. if \<not> ContainsString acc val then acc @ [val] else acc) xs ms = xs @ rest \<and>
          distinct rest \<and> set rest = set ms - set xs"
proof (induction ms arbitrary: xs)
  case Nil
  show ?case by simp
next
  case (Cons m ms)
  show ?case
  proof (cases "m \<in> set xs")
    case True
    from Cons.IH [of xs] obtain rest where
      "foldl (\<lambda>acc val. if \<not> ContainsString acc val then acc @ [val] else acc) xs ms = xs @ rest"
      "distinct rest" "set rest = set ms - set xs"
      by blast
    with True show ?thesis by (auto simp: ContainsString_set)
  next
    case False
    from Cons.IH [of "xs @ [m]"] obtain rest where
      r: "foldl (\<lambda>acc val. if \<not> ContainsString acc val then acc @ [val] else acc) (xs @ [m]) ms =
            (xs @ [m]) @ rest"
      "distinct rest" "set rest = set ms - set (xs @ [m])"
      by blast
    have "foldl (\<lambda>acc val. if \<not> ContainsString acc val then acc @ [val] else acc) xs (m # ms) =
            xs @ (m # rest)"
      using False r(1) by (simp add: ContainsString_set)
    moreover have "distinct (m # rest)" using r(2,3) by simp
    moreover have "set (m # rest) = set (m # ms) - set xs" using False r(3) by auto
    ultimately show ?thesis by blast
  qed
qed

lemma New_valid:
  assumes "Name c \<noteq> []" and "Duration c \<noteq> 0" and "0 \<le> BlockDuration c"
  shows "New (Some c) s pubs =
    Inr \<lparr>limiter =
           \<lparr>config = c\<lparr>BlockError := (if BlockError c = None then Some ErrorBlock else BlockError c),
                        WarningError :=
                          (if WarningError c = None then Some ErrorWarning else WarningError c)\<rparr>,
            whiteList =
              (if fault s = None
               then foldl (\<lambda>acc val. if \<not> ContainsString acc val then acc @ [val] else acc)
                      (WhiteList c) (sets s (Name c @ ''-white''))
               else WhiteList c),
            blackList =
              (if fault (called (CallSMembers (Name c @ ''-white'')) s) = None
               then foldl (\<lambda>acc val. if \<not> ContainsString acc val then acc @ [val] else acc)
                      (BlackList c) (sets s (Name c @ ''-black''))
               else BlackList c),
            whiteListKey = Name c @ ''-white'', blackListKey = Name c @ ''-black''\<rparr>,
          store = called (CallSMembers (Name c @ ''-black''))
                    (called (CallSMembers (Name c @ ''-white'')) s),
          published = pubs\<rparr>"
  using assms
  by (cases "fault s"; cases "fault (called (CallSMembers (Name c @ ''-white'')) s)")
    (auto simp: New_def SMembers_def Let_def copy_loop)


text \<open>The example limiter is the one \<^verbatim>\<open>New\<close> builds on an empty Store, after its two reads.\<close>

lemma New_example:
  "New (Some example_config) empty_store [] =
     Inr (example_state
            \<lparr>store := empty_store\<lparr>calls := [CallSMembers ''api-white'', CallSMembers ''api-black'']\<rparr>\<rparr>)"
  by (simp add: New_def SMembers_def Let_def called_def fault_def example_state_def
      example_limiter_def example_config_def empty_store_def)

text \<open>
  C9, as the code has it. For a configuration that \<^verbatim>\<open>New\<close> accepts, \<^verbatim>\<open>New\<close> returns a
  limiter whether or not the Store's reads fail. Each local list is the configured list
  as it is, duplicates included, followed by the members of the Store's set for that
  list's key that the configured list does not hold, each once; when the read fails
  nothing follows. So the list holds what the configured list and (on success) the Store's set
  hold, and it is free of duplicates exactly when the configured list is.
\<close>

theorem New_seeding:
  assumes name: "Name c \<noteq> []" and window: "Duration c \<noteq> 0" and bd: "0 \<le> BlockDuration c"
  shows "\<exists>st. New (Some c) s pubs = Inr st \<and>
    (\<exists>rest. whiteList (limiter st) = WhiteList c @ rest \<and> distinct rest \<and>
       set rest = (if fault s = None
                   then set (sets s (Name c @ ''-white'')) - set (WhiteList c) else {})) \<and>
    (\<exists>rest. blackList (limiter st) = BlackList c @ rest \<and> distinct rest \<and>
       set rest = (if fault (called (CallSMembers (Name c @ ''-white'')) s) = None
                   then set (sets s (Name c @ ''-black'')) - set (BlackList c) else {})) \<and>
    set (whiteList (limiter st)) =
      set (WhiteList c) \<union> (if fault s = None then set (sets s (Name c @ ''-white'')) else {}) \<and>
    set (blackList (limiter st)) =
      set (BlackList c) \<union>
        (if fault (called (CallSMembers (Name c @ ''-white'')) s) = None
         then set (sets s (Name c @ ''-black'')) else {}) \<and>
    distinct (whiteList (limiter st)) = distinct (WhiteList c) \<and>
    distinct (blackList (limiter st)) = distinct (BlackList c)"
proof -
  let ?merge = "foldl (\<lambda>acc val. if \<not> ContainsString acc val then acc @ [val] else acc)"
  let ?s1 = "called (CallSMembers (Name c @ ''-white'')) s"
  let ?wl = "if fault s = None then ?merge (WhiteList c) (sets s (Name c @ ''-white''))
             else WhiteList c"
  let ?bl = "if fault ?s1 = None then ?merge (BlackList c) (sets s (Name c @ ''-black''))
             else BlackList c"
  obtain st where new: "New (Some c) s pubs = Inr st"
    and wl: "whiteList (limiter st) = ?wl" and bl: "blackList (limiter st) = ?bl"
    using New_valid [OF name window bd, of s pubs] by simp
  obtain wrest where w: "?merge (WhiteList c) (sets s (Name c @ ''-white'')) = WhiteList c @ wrest"
    "distinct wrest" "set wrest = set (sets s (Name c @ ''-white'')) - set (WhiteList c)"
    using merge_loop [of "WhiteList c" "sets s (Name c @ ''-white'')"] by blast
  obtain brest where b: "?merge (BlackList c) (sets s (Name c @ ''-black'')) = BlackList c @ brest"
    "distinct brest" "set brest = set (sets s (Name c @ ''-black'')) - set (BlackList c)"
    using merge_loop [of "BlackList c" "sets s (Name c @ ''-black'')"] by blast
  have w1: "\<exists>rest. whiteList (limiter st) = WhiteList c @ rest \<and> distinct rest \<and>
       set rest = (if fault s = None
                   then set (sets s (Name c @ ''-white'')) - set (WhiteList c) else {})"
  proof (cases "fault s = None")
    case True
    with wl w show ?thesis by auto
  next
    case False
    with wl show ?thesis by auto
  qed
  have b1: "\<exists>rest. blackList (limiter st) = BlackList c @ rest \<and> distinct rest \<and>
       set rest = (if fault ?s1 = None
                   then set (sets s (Name c @ ''-black'')) - set (BlackList c) else {})"
  proof (cases "fault ?s1 = None")
    case True
    with bl b show ?thesis by auto
  next
    case False
    with bl show ?thesis by auto
  qed
  have w2: "set (whiteList (limiter st)) =
      set (WhiteList c) \<union> (if fault s = None then set (sets s (Name c @ ''-white'')) else {})"
    using w1 by auto
  have b2: "set (blackList (limiter st)) =
      set (BlackList c) \<union> (if fault ?s1 = None then set (sets s (Name c @ ''-black'')) else {})"
    using b1 by auto
  have w3: "distinct (whiteList (limiter st)) = distinct (WhiteList c)"
    using w1 by auto
  have b3: "distinct (blackList (limiter st)) = distinct (BlackList c)"
    using b1 by auto
  from new w1 b1 w2 b2 w3 b3 show ?thesis by blast
qed

text \<open>A configured entry that the Store holds too, and a failing second read.\<close>

theorem New_seeding_run:
  "\<not> isl (New (Some (example_config\<lparr>WhiteList := [''a''], BlackList := [''x'']\<rparr>))
            (empty_store\<lparr>sets := (\<lambda>k. [''a'', ''b'']), faults := [None, Some ''down'']\<rparr>) []) \<and>
   set (whiteList (limiter (projr
     (New (Some (example_config\<lparr>WhiteList := [''a''], BlackList := [''x'']\<rparr>))
        (empty_store\<lparr>sets := (\<lambda>k. [''a'', ''b'']), faults := [None, Some ''down'']\<rparr>) [])))) =
     {''a'', ''b''} \<and>
   distinct (whiteList (limiter (projr
     (New (Some (example_config\<lparr>WhiteList := [''a''], BlackList := [''x'']\<rparr>))
        (empty_store\<lparr>sets := (\<lambda>k. [''a'', ''b'']), faults := [None, Some ''down'']\<rparr>) [])))) \<and>
   set (blackList (limiter (projr
     (New (Some (example_config\<lparr>WhiteList := [''a''], BlackList := [''x'']\<rparr>))
        (empty_store\<lparr>sets := (\<lambda>k. [''a'', ''b'']), faults := [None, Some ''down'']\<rparr>) [])))) =
     {''x''}"
proof -
  let ?c = "example_config\<lparr>WhiteList := [''a''], BlackList := [''x'']\<rparr>"
  let ?s = "empty_store\<lparr>sets := (\<lambda>k. [''a'', ''b'']), faults := [None, Some ''down'']\<rparr>"
  have name: "Name ?c \<noteq> []" and window: "Duration ?c \<noteq> 0" and bd: "0 \<le> BlockDuration ?c"
    by (simp_all add: example_config_def)
  have f1: "fault ?s = None"
    and f2: "fault (called (CallSMembers (Name ?c @ ''-white'')) ?s) = Some ''down''"
    by (simp_all add: fault_def called_def empty_store_def)
  from New_seeding [OF name window bd, of ?s "[]"] obtain st where
    new: "New (Some ?c) ?s [] = Inr st"
    and w: "set (whiteList (limiter st)) =
      set (WhiteList ?c) \<union> (if fault ?s = None then set (sets ?s (Name ?c @ ''-white'')) else {})"
    and b: "set (blackList (limiter st)) =
      set (BlackList ?c) \<union>
        (if fault (called (CallSMembers (Name ?c @ ''-white'')) ?s) = None
         then set (sets ?s (Name ?c @ ''-black'')) else {})"
    and d: "distinct (whiteList (limiter st)) = distinct (WhiteList ?c)"
    by blast
  from w f1 have w': "set (whiteList (limiter st)) = {''a'', ''b''}"
    by (simp add: empty_store_def) 
  from b f2 have b': "set (blackList (limiter st)) = {''x''}"
    by simp
  from d have d': "distinct (whiteList (limiter st))" by simp
  from new w' b' d' show ?thesis by simp
qed

text \<open>A configured list with the same identity twice stays as it is.\<close>

theorem New_keeps_configured_duplicates:
  "\<not> isl (New (Some (example_config\<lparr>WhiteList := [''a'', ''a'']\<rparr>))
            (empty_store\<lparr>sets := (\<lambda>k. [''a'', ''b''])\<rparr>) []) \<and>
   whiteList (limiter (projr
     (New (Some (example_config\<lparr>WhiteList := [''a'', ''a'']\<rparr>))
        (empty_store\<lparr>sets := (\<lambda>k. [''a'', ''b''])\<rparr>) []))) = [''a'', ''a'', ''b''] \<and>
   \<not> distinct (whiteList (limiter (projr
     (New (Some (example_config\<lparr>WhiteList := [''a'', ''a'']\<rparr>))
        (empty_store\<lparr>sets := (\<lambda>k. [''a'', ''b''])\<rparr>) []))))"
  by (simp add: New_def SMembers_def Let_def example_config_def empty_store_def called_def
      fault_def)


section \<open>Lists without duplicates\<close>

text \<open>
  Every method keeps the two local lists free of duplicates once they are, and
  construction gives such lists from configured lists that are. In such a list an identity
  occurs at most once.
\<close>

lemma distinct_count_le: "distinct xs \<Longrightarrow> count_list xs x \<le> 1"
  by (induction xs) auto

lemma CheckReset_limiter: "limiter (snd (CheckReset ident st)) = limiter st"
  by (cases "fault (store st)") (simp_all add: CheckReset_ok CheckReset_fail)

lemma mutations_distinct:
  assumes "distinct (whiteList (limiter st))" and "distinct (blackList (limiter st))"
  shows "distinct (whiteList (limiter (snd (AddWhiteList ident pub st)))) \<and>
         distinct (blackList (limiter (snd (AddWhiteList ident pub st))))"
    and "distinct (whiteList (limiter (snd (AddBlackList ident pub st)))) \<and>
         distinct (blackList (limiter (snd (AddBlackList ident pub st))))"
    and "distinct (whiteList (limiter (snd (RemoveWhiteList ident pub st)))) \<and>
         distinct (blackList (limiter (snd (RemoveWhiteList ident pub st))))"
    and "distinct (whiteList (limiter (snd (RemoveBlackList ident pub st)))) \<and>
         distinct (blackList (limiter (snd (RemoveBlackList ident pub st))))"
proof -
  show "distinct (whiteList (limiter (snd (AddWhiteList ident pub st)))) \<and>
        distinct (blackList (limiter (snd (AddWhiteList ident pub st))))"
    using assms by (cases "fault (store st)") (simp_all add: AddWhiteList_ok AddWhiteList_fail)
  show "distinct (whiteList (limiter (snd (AddBlackList ident pub st)))) \<and>
        distinct (blackList (limiter (snd (AddBlackList ident pub st))))"
    using assms by (cases "fault (store st)") (simp_all add: AddBlackList_ok AddBlackList_fail)
  show "distinct (whiteList (limiter (snd (RemoveWhiteList ident pub st)))) \<and>
        distinct (blackList (limiter (snd (RemoveWhiteList ident pub st))))"
    using assms
    by (cases "fault (store st)") (simp_all add: RemoveWhiteList_ok RemoveWhiteList_fail)
  show "distinct (whiteList (limiter (snd (RemoveBlackList ident pub st)))) \<and>
        distinct (blackList (limiter (snd (RemoveBlackList ident pub st))))"
    using assms
    by (cases "fault (store st)")
      (simp_all add: RemoveBlackList_ok RemoveBlackList_fail CheckReset_limiter)
qed

lemma Check_distinct:
  assumes w: "distinct (whiteList (limiter st))" and b: "distinct (blackList (limiter st))"
  shows "distinct (whiteList (limiter (snd (Check ident st)))) \<and>
         distinct (blackList (limiter (snd (Check ident st))))"
proof (cases "ident \<in> set (whiteList (limiter st)) \<or> ident \<in> set (blackList (limiter st))")
  case True
  with w b show ?thesis by (auto simp: Check_def Contains_set Let_def)
next
  case False
  then have nw: "ident \<notin> set (whiteList (limiter st))"
    and nb: "ident \<notin> set (blackList (limiter st))"
    by simp_all
  obtain r s where fl: "FrequencyLimit (Name (config (limiter st)) @ '':'' @ ident) 0
      (Duration (config (limiter st))) (store st) = (r, s)"
    by (cases "FrequencyLimit (Name (config (limiter st)) @ '':'' @ ident) 0
      (Duration (config (limiter st))) (store st)")
  show ?thesis
  proof (cases r)
    case (Inl err)
    with fl Check_failed [OF nw nb] w b show ?thesis by simp
  next
    case (Inr cnt)
    with fl have "FrequencyLimit (Name (config (limiter st)) @ '':'' @ ident) 0
      (Duration (config (limiter st))) (store st) = (Inr cnt, s)" by simp
    note step = Check_counted [OF nw nb this]
    have "distinct (whiteList (limiter (snd (AddBlackList ident True (st\<lparr>store := s\<rparr>))))) \<and>
          distinct (blackList (limiter (snd (AddBlackList ident True (st\<lparr>store := s\<rparr>)))))"
      using mutations_distinct(2) [of "st\<lparr>store := s\<rparr>" ident True] w b by simp
    with step w b show ?thesis by simp
  qed
qed

lemma Sub_distinct:
  assumes "distinct (whiteList (limiter st))" and "distinct (blackList (limiter st))"
  shows "distinct (whiteList (limiter (snd (Sub message st)))) \<and>
         distinct (blackList (limiter (snd (Sub message st))))"
  using assms mutations_distinct [OF assms] by (simp add: Sub_def Let_def)

end
